theory Spec2Isabelle
  imports Main "HOL-Library.Word"
begin

section \<open>Row-store search (src/btree/row\_srch.c)\<close>

subsection \<open>Data model\<close>

text \<open>
  Keys are byte strings. A key pointer either references the page's disk image
  (an offset into it) or memory allocated from the heap (the address of a buffer).
\<close>

type_synonym bytes = "8 word list"

datatype ptr = Disk nat | Heap nat

text \<open>
  \<open>WT_ROW\<close> and \<open>WT_ROW_REF\<close> both start with a \<open>void *key\<close> / \<open>uint32_t size\<close>
  pair, which is all the search reads and all the key instantiation writes.
\<close>

record wt_row =
  row_key :: ptr
  row_size :: nat

text \<open>Return codes: \<open>None\<close> is 0; an error is \<open>WT_NOTFOUND\<close>, a code handed back by a
  collaborator (page provider, cell codec), or undefined behaviour of the C program (a read
  through a dangling or out-of-range pointer).\<close>

datatype error = WT_NOTFOUND | Collab int | Undefined_Behaviour

record wt_update =
  upd_deleted :: bool
  upd_data :: bytes

record wt_insert =
  ins_key :: bytes
  ins_upd :: "wt_update option"

text \<open>
  A page. An internal page always has its 0th entry, so its children are a first child and
  the rest; \<open>indx_count\<close> is their number. A leaf page has \<open>indx_count\<close> on-disk slots, a
  write generation, and the optional \<open>upd\<close> and \<open>ins\<close> arrays (\<open>None\<close> is a NULL array;
  \<open>ins\<close> has one chain per slot and one more, at index \<open>indx_count\<close>, for keys smaller
  than any on the page; a chain is the list of its nodes in \<open>next\<close> order).
  The key/size pairs of a page's entries are mutable and live in the store, see below.
\<close>

datatype page =
    Row_Int nat page "page list"
  | Row_Leaf nat nat nat "(nat \<Rightarrow> wt_update option) option" "(nat \<Rightarrow> wt_insert list) option"

fun paddr :: "page \<Rightarrow> nat" where
  "paddr (Row_Int a c cs) = a"
| "paddr (Row_Leaf a n g u i) = a"

fun indx_count :: "page \<Rightarrow> nat" where
  "indx_count (Row_Int a c cs) = Suc (length cs)"
| "indx_count (Row_Leaf a n g u i) = n"

text \<open>References handed back to the caller: \<open>&page->u.row_leaf.upd[slot]\<close> or \<open>&ins->upd\<close>
  (node \<open>j\<close> of the chain at \<open>ins[s]\<close>), and \<open>&page->u.row_leaf.ins[slot]\<close> or \<open>&ins->next\<close>.\<close>

datatype upd_ref = Upd_Slot nat | Ins_Upd nat nat
datatype ins_ref = Ins_Head nat | Ins_Next nat nat

text \<open>
  The session with the memory it shares with other threads: the heap (allocated buffers)
  with the next fresh address, the disk image of every page, the key/size pair of entry
  \<open>i\<close> of the page at address \<open>a\<close>, the hazard references held, and the \<open>srch_*\<close>
  return values.
\<close>

record session =
  heap :: "nat \<Rightarrow> bytes option"
  brk :: nat
  dsk :: "nat \<Rightarrow> bytes"
  rows :: "nat \<times> nat \<Rightarrow> wt_row"
  hazard :: "nat list"
  srch_page :: "nat option"
  srch_write_gen :: nat
  srch_match :: bool
  srch_ip :: "nat option"
  srch_vupdate :: "wt_update option"
  srch_ins :: "ins_ref option"
  srch_upd :: "upd_ref option"
  srch_slot :: nat
  srch_exp :: "nat option"

definition UINT32_MAX :: nat where
  "UINT32_MAX = 4294967295"

subsection \<open>Key instantiation\<close>

text \<open>Modelled from the spec: the macro \<open>__wt_key_process\<close> is not in the source file; a
  key is pending, and needs processing, exactly when its size is zero.\<close>

definition wt_key_process :: "wt_row \<Rightarrow> bool" where
  "wt_key_process r = (row_size r = 0)"

text \<open>Modelled from the spec: \<open>__wt_ref_off_page\<close> is not in the source file; it tells
  whether a pointer references memory outside the page's disk image.\<close>

fun wt_ref_off_page :: "ptr \<Rightarrow> bool" where
  "wt_ref_off_page (Heap a) = True"
| "wt_ref_off_page (Disk off) = False"

text \<open>The \<open>WT_ITEM\<close> the comparator reads through a key/size pair: \<open>None\<close> when the
  pointer is dangling or the bytes are not all there.\<close>

definition wt_item :: "session \<Rightarrow> nat \<Rightarrow> wt_row \<Rightarrow> bytes option" where
  "wt_item st a r =
     (case row_key r of
        Heap h \<Rightarrow>
          (case heap st h of
             None \<Rightarrow> None
           | Some b \<Rightarrow> if row_size r \<le> length b then Some (take (row_size r) b) else None)
      | Disk off \<Rightarrow>
          if off + row_size r \<le> length (dsk st a)
          then Some (take (row_size r) (drop off (dsk st a))) else None)"

text \<open>The buffer \<open>tmp\<close> of \<open>__wt_key_build\<close>: heap address of \<open>tmp.mem\<close> (which is also
  \<open>tmp.item.data\<close>) and \<open>tmp.item.size\<close>.\<close>

record wt_buf =
  buf_mem :: nat
  buf_size :: nat

text \<open>Modelled from the spec: \<open>__wt_cell_process\<close> is not in the source file. The cell
  codec \<open>codec a off\<close> decodes the cell at offset \<open>off\<close> of the page at \<open>a\<close> or fails
  with an error code; the decoded key is put in a freshly allocated buffer. A cell is on
  the page: decoding through any other pointer is undefined.\<close>

definition wt_cell_process ::
    "(nat \<Rightarrow> nat \<Rightarrow> int + bytes) \<Rightarrow> session \<Rightarrow> nat \<Rightarrow> ptr \<Rightarrow> (error + wt_buf) \<times> session" where
  "wt_cell_process codec st a cell =
     (case cell of
        Heap h \<Rightarrow> (Inl Undefined_Behaviour, st)
      | Disk off \<Rightarrow>
          (case codec a off of
             Inl e \<Rightarrow> (Inl (Collab e), st)
           | Inr b \<Rightarrow>
               (Inr \<lparr>buf_mem = brk st, buf_size = length b\<rparr>,
                st\<lparr>heap := (heap st)(brk st := Some b), brk := Suc (brk st)\<rparr>)))"

text \<open>Modelled from the spec: \<open>__wt_free\<close> is not in the source file; it frees the
  buffer at an address.\<close>

definition wt_free :: "session \<Rightarrow> nat \<Rightarrow> session" where
  "wt_free st h = st\<lparr>heap := (heap st)(h := None)\<rparr>"

text \<open>
  \<open>__wt_key_build_serial_func\<close>, lines 341-374. The two stores are separate steps, in
  program order, with \<open>WT_MEMORY_FLUSH\<close> between them: \<open>serial_stores\<close> lists the states
  of the memory that the function goes through, the state it starts from first.
\<close>

definition store_key :: "session \<Rightarrow> nat \<times> nat \<Rightarrow> ptr \<Rightarrow> session" where
  "store_key st k p = st\<lparr>rows := (rows st)(k := (rows st k)\<lparr>row_key := p\<rparr>)\<rparr>"

definition store_size :: "session \<Rightarrow> nat \<times> nat \<Rightarrow> nat \<Rightarrow> session" where
  "store_size st k n = st\<lparr>rows := (rows st)(k := (rows st k)\<lparr>row_size := n\<rparr>)\<rparr>"

definition serial_stores :: "session \<Rightarrow> nat \<times> nat \<Rightarrow> wt_buf \<Rightarrow> session list" where
  "serial_stores st k tmp =
     (if wt_key_process (rows st k)
      then [st,
            store_key st k (Heap (buf_mem tmp)),
            store_size (store_key st k (Heap (buf_mem tmp))) k (buf_size tmp)]
      else [st])"

definition wt_key_build_serial_func :: "session \<Rightarrow> nat \<times> nat \<Rightarrow> wt_buf \<Rightarrow> error option \<times> session" where
  "wt_key_build_serial_func st k tmp = (None, last (serial_stores st k tmp))"

text \<open>
  \<open>__wt_key_build\<close>, lines 289-335, in two parts. Other threads can run between the
  instantiation of the key into \<open>tmp\<close> and the serialized swap, so the second part,
  \<open>wt_key_build_swap\<close> (lines 327-334), is a function of the state it finds.
\<close>

text \<open>Modelled from the spec: \<open>__wt_key_build_serial\<close> is not in the source file; it runs
  \<open>__wt_key_build_serial_func\<close> serialized with the other mutations of the page and
  assigns its return value to \<open>ret\<close>.\<close>

definition wt_key_build_swap :: "session \<Rightarrow> nat \<times> nat \<Rightarrow> wt_buf \<Rightarrow> error option \<times> session" where
  "wt_key_build_swap st k tmp =
     (case wt_key_build_serial_func st k tmp of
        (ret, st') \<Rightarrow>
          if row_key (rows st' k) \<noteq> Heap (buf_mem tmp)
          then (ret, wt_free st' (buf_mem tmp))
          else (ret, st'))"

definition wt_key_build ::
    "(nat \<Rightarrow> nat \<Rightarrow> int + bytes) \<Rightarrow> session \<Rightarrow> nat \<times> nat \<Rightarrow> error option \<times> session" where
  "wt_key_build codec st k =
     (let cell = row_key (rows st k) in
      if wt_ref_off_page cell then (None, st)
      else
        (case wt_cell_process codec st (fst k) cell of
           (Inl e, st') \<Rightarrow> (Some e, st')
         | (Inr tmp, st') \<Rightarrow> wt_key_build_swap st' k tmp))"

text \<open>The call of lines 58-60 and of lines 141-142: the key is built only when it needs
  processing.\<close>

definition wt_key_instantiate ::
    "(nat \<Rightarrow> nat \<Rightarrow> int + bytes) \<Rightarrow> session \<Rightarrow> nat \<times> nat \<Rightarrow> error option \<times> session" where
  "wt_key_instantiate codec st k =
     (if wt_key_process (rows st k) then wt_key_build codec st k else (None, st))"

subsection \<open>The tree and the collaborators\<close>

text \<open>\<open>BTREE\<close>: the comparator, called as \<open>btree_compare btree key item\<close> with the
  application's key first, and the root page.\<close>

record btree =
  btree_compare :: "bytes \<Rightarrow> bytes \<Rightarrow> int"
  root_page :: page

text \<open>Modelled from the spec: \<open>__wt_page_in\<close> is not in the source file. The page
  provider pins the page at a locator (the hazard reference is added to the session) or
  fails with an error code, which \<open>pin_err\<close> gives.\<close>

definition wt_page_in :: "(nat \<Rightarrow> int option) \<Rightarrow> session \<Rightarrow> nat \<Rightarrow> error option \<times> session" where
  "wt_page_in pin_err st a =
     (case pin_err a of
        Some e \<Rightarrow> (Some (Collab e), st)
      | None \<Rightarrow> (None, st\<lparr>hazard := a # hazard st\<rparr>))"

text \<open>Modelled from the spec: \<open>__wt_hazard_clear\<close> is not in the source file; a pin is
  released by clearing its hazard reference.\<close>

definition wt_hazard_clear :: "session \<Rightarrow> nat \<Rightarrow> session" where
  "wt_hazard_clear st a = st\<lparr>hazard := remove1 a (hazard st)\<rparr>"

text \<open>Modelled from the spec: \<open>WT_PAGE_OUT\<close> is not in the source file; it releases the
  pin of a page unless the page is the root, whose pin the caller holds for the whole
  search (as lines 99-100 do for the parent during the descent).\<close>

definition WT_PAGE_OUT :: "btree \<Rightarrow> session \<Rightarrow> page \<Rightarrow> session" where
  "WT_PAGE_OUT bt st p =
     (if paddr p \<noteq> paddr (root_page bt) then wt_hazard_clear st (paddr p) else st)"

subsection \<open>The binary searches\<close>

text \<open>
  The loop of lines 49-84 over the internal page at address \<open>a\<close>. Its variables are
  \<open>base\<close>, \<open>limit\<close>, \<open>cmp\<close> (which keeps the value it had before the loop until a
  comparison is made) and \<open>rref\<close> (the index of the entry it points to); \<open>probes\<close>
  records, in order, the indices whose entries were passed to the comparator.
  The result is \<open>(base, cmp, rref, probes)\<close>. The indices are \<open>uint32_t\<close> in the source
  and never exceed \<open>indx_count\<close>, so no addition wraps.
\<close>

function row_int_loop ::
    "(nat \<Rightarrow> nat \<Rightarrow> int + bytes) \<Rightarrow> btree \<Rightarrow> bytes \<Rightarrow> nat \<Rightarrow> session \<Rightarrow>
     nat \<Rightarrow> nat \<Rightarrow> int \<Rightarrow> nat option \<Rightarrow> nat list \<Rightarrow>
     (error + nat \<times> int \<times> nat option \<times> nat list) \<times> session" where
  "row_int_loop codec bt key a st base limit cmp rref probes =
     (if limit = 0 then (Inr (base, cmp, rref, probes), st)
      else
        let indx = base + limit div 2 in
        case wt_key_instantiate codec st (a, indx) of
          (Some e, st') \<Rightarrow> (Inl e, st')
        | (None, st') \<Rightarrow>
            if indx \<noteq> 0 then
              (case wt_item st' a (rows st' (a, indx)) of
                 None \<Rightarrow> (Inl Undefined_Behaviour, st')
               | Some item \<Rightarrow>
                   let c = btree_compare bt key item in
                   if c = 0 then (Inr (base, c, Some indx, probes @ [indx]), st')
                   else if c < 0
                   then row_int_loop codec bt key a st' base (limit div 2) c (Some indx)
                          (probes @ [indx])
                   else row_int_loop codec bt key a st' (indx + 1) ((limit - 1) div 2) c
                          (Some indx) (probes @ [indx]))
            else row_int_loop codec bt key a st' (indx + 1) ((limit - 1) div 2) cmp
                   (Some indx) probes)"
  by pat_completeness auto
termination
  by (relation "measure (\<lambda>(codec, bt, key, a, st, base, limit, cmp, rref, probes). limit)") auto

text \<open>The loop of lines 133-152 over the leaf page at address \<open>a\<close>; the result is
  \<open>(base, cmp, rip)\<close>.\<close>

function row_leaf_loop ::
    "(nat \<Rightarrow> nat \<Rightarrow> int + bytes) \<Rightarrow> btree \<Rightarrow> bytes \<Rightarrow> nat \<Rightarrow> session \<Rightarrow>
     nat \<Rightarrow> nat \<Rightarrow> int \<Rightarrow> nat option \<Rightarrow> (error + nat \<times> int \<times> nat option) \<times> session" where
  "row_leaf_loop codec bt key a st base limit cmp rip =
     (if limit = 0 then (Inr (base, cmp, rip), st)
      else
        let indx = base + limit div 2 in
        case wt_key_instantiate codec st (a, indx) of
          (Some e, st') \<Rightarrow> (Inl e, st')
        | (None, st') \<Rightarrow>
            (case wt_item st' a (rows st' (a, indx)) of
               None \<Rightarrow> (Inl Undefined_Behaviour, st')
             | Some item \<Rightarrow>
                 let c = btree_compare bt key item in
                 if c = 0 then (Inr (base, c, Some indx), st')
                 else if c < 0
                 then row_leaf_loop codec bt key a st' base (limit div 2) c (Some indx)
                 else row_leaf_loop codec bt key a st' (indx + 1) ((limit - 1) div 2) c
                        (Some indx)))"
  by pat_completeness auto
termination
  by (relation "measure (\<lambda>(codec, bt, key, a, st, base, limit, cmp, rip). limit)") auto

declare row_int_loop.simps [simp del] row_leaf_loop.simps [simp del]

subsection \<open>Insert chain search\<close>

text \<open>\<open>__wt_ins_search\<close>, lines 255-283, on the chain at \<open>ins[s]\<close>; \<open>j\<close> is the position
  in that chain of the node \<open>ins\<close> points to. The result is the return value (0 on a
  match, 1 otherwise) and the session.\<close>

fun wt_ins_search :: "btree \<Rightarrow> session \<Rightarrow> nat \<Rightarrow> nat \<Rightarrow> wt_insert list \<Rightarrow> bytes \<Rightarrow> int \<times> session" where
  "wt_ins_search bt st s j [] key = (1, st)"
| "wt_ins_search bt st s j (n # ns) key =
     (let c = btree_compare bt key (ins_key n) in
      if c = 0
      then (0, st\<lparr>srch_ins := None, srch_vupdate := ins_upd n, srch_upd := Some (Ins_Upd s j)\<rparr>)
      else if c < 0 then (1, st)
      else wt_ins_search bt (st\<lparr>srch_ins := Some (Ins_Next s j)\<rparr>) s (Suc j) ns key)"

subsection \<open>The search\<close>

text \<open>Modelled from the spec: \<open>WT_ROW_INDX_SLOT\<close>, \<open>WT_ROW_INSERT\<close> and
  \<open>WT_ROW_INSERT_SMALLEST\<close> are not in the source file.
  The slot of a row is its index in the page's array (of a NULL row, undefined); the insert
  chain of a slot is \<open>ins[slot]\<close> and the chain of the keys smaller than any on the page is
  \<open>ins[indx_count]\<close>, both NULL (the empty chain) when the page has no \<open>ins\<close> array.\<close>

definition WT_ROW_INSERT_SLOT :: "(nat \<Rightarrow> wt_insert list) option \<Rightarrow> nat \<Rightarrow> wt_insert list" where
  "WT_ROW_INSERT_SLOT i s = (case i of None \<Rightarrow> [] | Some ia \<Rightarrow> ia s)"

text \<open>Modelled from the spec: \<open>WT_UPDATE_DELETED_ISSET\<close> is not in the source file; it
  tells whether an update is a deletion marker.\<close>

definition WT_UPDATE_DELETED_ISSET :: "wt_update \<Rightarrow> bool" where
  "WT_UPDATE_DELETED_ISSET u = upd_deleted u"

text \<open>\<open>*session->srch_upd\<close>: the update pointer a reference leads to, \<open>None\<close> when the
  reference leads nowhere on the page.\<close>

fun deref_upd ::
    "(nat \<Rightarrow> wt_update option) option \<Rightarrow> (nat \<Rightarrow> wt_insert list) option \<Rightarrow> upd_ref \<Rightarrow>
     wt_update option option" where
  "deref_upd (Some ua) i (Upd_Slot s) = Some (ua s)"
| "deref_upd None i (Upd_Slot s) = None"
| "deref_upd u (Some ia) (Ins_Upd s j) =
     (if j < length (ia s) then Some (ins_upd (ia s ! j)) else None)"
| "deref_upd u None (Ins_Upd s j) = None"

text \<open>The labels \<open>notfound\<close> and \<open>err\<close>, lines 244-248, and \<open>done\<close>, lines 228-242.\<close>

definition search_err :: "btree \<Rightarrow> page \<Rightarrow> error \<Rightarrow> session \<Rightarrow> error option \<times> session" where
  "search_err bt p ret st = (Some ret, WT_PAGE_OUT bt st p)"

definition search_notfound :: "btree \<Rightarrow> page \<Rightarrow> session \<Rightarrow> error option \<times> session" where
  "search_notfound bt p st = search_err bt p WT_NOTFOUND st"

definition search_done ::
    "btree \<Rightarrow> bool \<Rightarrow> page \<Rightarrow> nat \<Rightarrow> int \<Rightarrow> nat option \<Rightarrow> session \<Rightarrow> error option \<times> session" where
  "search_done bt write p write_gen cmp rip st =
     (case p of
        Row_Int a c cs \<Rightarrow> search_err bt p Undefined_Behaviour st
      | Row_Leaf a n g u i \<Rightarrow>
          (case (if write then Some None
                 else case srch_upd st of None \<Rightarrow> Some None | Some r \<Rightarrow> deref_upd u i r) of
             None \<Rightarrow> search_err bt p Undefined_Behaviour st
           | Some (Some v) \<Rightarrow>
               if WT_UPDATE_DELETED_ISSET v then search_notfound bt p st
               else (None, st\<lparr>srch_page := Some a, srch_write_gen := write_gen,
                              srch_match := (cmp = 0), srch_ip := rip\<rparr>)
           | Some None \<Rightarrow>
               (None, st\<lparr>srch_page := Some a, srch_write_gen := write_gen,
                         srch_match := (cmp = 0), srch_ip := rip\<rparr>)))"

text \<open>Lines 104-249: the search of the leaf page the descent ended on; \<open>cmp\<close> still has
  the value the descent left in it.\<close>

definition row_search_leaf ::
    "(nat \<Rightarrow> nat \<Rightarrow> int + bytes) \<Rightarrow> btree \<Rightarrow> bytes \<Rightarrow> bool \<Rightarrow> page \<Rightarrow> int \<Rightarrow> session \<Rightarrow>
     error option \<times> session" where
  "row_search_leaf codec bt key write p cmp0 st =
     (case p of
        Row_Int a c cs \<Rightarrow> search_err bt p Undefined_Behaviour st
      | Row_Leaf a n g u i \<Rightarrow>
          (case row_leaf_loop codec bt key a st 0 n cmp0 None of
             (Inl e, st1) \<Rightarrow> search_err bt p e st1
           | (Inr (base, cmp, rip), st1) \<Rightarrow>
               if cmp = 0 then
                 (case rip of
                    None \<Rightarrow> search_err bt p Undefined_Behaviour st1
                  | Some slot \<Rightarrow>
                      let st2 = st1\<lparr>srch_slot := slot\<rparr>;
                          st3 = (case u of
                                   None \<Rightarrow> st2
                                 | Some ua \<Rightarrow> st2\<lparr>srch_upd := Some (Upd_Slot slot),
                                                  srch_vupdate := ua slot\<rparr>)
                      in search_done bt write p g cmp rip st3)
               else
                 let rip = (if base \<noteq> 0 then base - 1 else 0);
                     ins = (if base = 0 then WT_ROW_INSERT_SLOT i n
                            else WT_ROW_INSERT_SLOT i rip);
                     st2 = st1\<lparr>srch_slot := (if base = 0 then n else rip)\<rparr>;
                     st3 = (if i \<noteq> None then st2\<lparr>srch_ins := Some (Ins_Head (srch_slot st2))\<rparr>
                            else st2)
                 in if ins = [] then
                      (if \<not> write then search_notfound bt p st3
                       else search_done bt write p g cmp (Some rip) st3)
                    else
                      (case wt_ins_search bt st3 (srch_slot st3) 0 ins key of
                         (cmp', st4) \<Rightarrow>
                           if cmp' \<noteq> 0 \<and> \<not> write then search_notfound bt p st4
                           else search_done bt write p g cmp' (Some rip) st4)))"

text \<open>
  The descent, lines 47-102: from \<open>page\<close> down to a leaf, which is returned with the
  value of \<open>cmp\<close>; on an error the page held at that moment is returned with it.
  \<open>descent_ref\<close> is the reference used for the step down (lines 94-95): the one before
  \<open>base\<close>, or the one the loop stopped at when \<open>cmp\<close> is 0; \<open>None\<close> is a reference
  that was never set or lies before the array. Reading the array of references at or
  beyond \<open>indx_count\<close> is undefined.
\<close>

definition descent_ref :: "nat \<Rightarrow> int \<Rightarrow> nat option \<Rightarrow> nat option" where
  "descent_ref base cmp rref =
     (if cmp \<noteq> 0 then (if base = 0 then None else Some (base - 1)) else rref)"

function descend ::
    "(nat \<Rightarrow> nat \<Rightarrow> int + bytes) \<Rightarrow> (nat \<Rightarrow> int option) \<Rightarrow> btree \<Rightarrow> bytes \<Rightarrow> int \<Rightarrow> session \<Rightarrow>
     page \<Rightarrow> (error \<times> page + page \<times> int) \<times> session" where
  "descend codec pin_err bt key cmp st (Row_Leaf a n g u i) = (Inr (Row_Leaf a n g u i, cmp), st)"
| "descend codec pin_err bt key cmp st (Row_Int a c cs) =
     (case row_int_loop codec bt key a st 0 (Suc (length cs)) cmp None [] of
        (Inl e, st1) \<Rightarrow> (Inl (e, Row_Int a c cs), st1)
      | (Inr (base, cmp1, rref, probes), st1) \<Rightarrow>
          (case descent_ref base cmp1 rref of
             None \<Rightarrow> (Inl (Undefined_Behaviour, Row_Int a c cs), st1)
           | Some r \<Rightarrow>
               if r < Suc (length cs) then
                 (case wt_page_in pin_err st1 (paddr ((c # cs) ! r)) of
                    (Some e, st2) \<Rightarrow> (Inl (e, Row_Int a c cs), st2)
                  | (None, st2) \<Rightarrow>
                      descend codec pin_err bt key cmp1
                        (if a \<noteq> paddr (root_page bt) then wt_hazard_clear st2 a else st2)
                        ((c # cs) ! r))
               else (Inl (Undefined_Behaviour, Row_Int a c cs), st1)))"
  by pat_completeness auto
termination
proof (relation "measure (\<lambda>(codec, pin_err, bt, key, cmp, st, p). size p)", goal_cases)
  case 1
  show ?case by simp
next
  case (2 codec pin_err bt key cmp st a c cs x1 st1 x2 base y cmp1 z rref probes r x3 st2)
  have "x \<in> set xs \<Longrightarrow> size x < size_list size xs" for x :: page and xs
    by (induction xs) auto
  from this [of "(c # cs) ! r" "c # cs"] \<open>r < Suc (length cs)\<close>
  have "size ((c # cs) ! r) < size_list size (c # cs)"
    by (metis length_Cons nth_mem)
  then show ?case by simp
qed

text \<open>
  \<open>__wt_row_search\<close>, lines 18-249. The flags are the \<open>WT_WRITE\<close> bit alone (\<open>write\<close>),
  so the check of the flags against the API mask (line 43) always passes.
\<close>

definition clear_return_values :: "session \<Rightarrow> session" where
  "clear_return_values st =
     st\<lparr>srch_page := None, srch_write_gen := 0, srch_match := False, srch_ip := None,
        srch_vupdate := None, srch_ins := None, srch_upd := None, srch_slot := UINT32_MAX,
        srch_exp := None\<rparr>"

definition wt_row_search ::
    "(nat \<Rightarrow> nat \<Rightarrow> int + bytes) \<Rightarrow> (nat \<Rightarrow> int option) \<Rightarrow> btree \<Rightarrow> session \<Rightarrow> bytes \<Rightarrow> bool \<Rightarrow>
     error option \<times> session" where
  "wt_row_search codec pin_err bt st key write =
     (case descend codec pin_err bt key 0 (clear_return_values st) (root_page bt) of
        (Inl (e, p), st1) \<Rightarrow> search_err bt p e st1
      | (Inr (p, cmp), st1) \<Rightarrow> row_search_leaf codec bt key write p cmp st1)"

subsection \<open>Notions used in the properties\<close>

text \<open>The \<open>srch_*\<close> return values of two sessions are the same; a step touches the
  memory (heap, key/size pairs) only.\<close>

definition srch_frame :: "session \<Rightarrow> session \<Rightarrow> bool" where
  "srch_frame st st' \<longleftrightarrow>
     srch_page st' = srch_page st \<and> srch_write_gen st' = srch_write_gen st \<and>
     srch_match st' = srch_match st \<and> srch_ip st' = srch_ip st \<and>
     srch_vupdate st' = srch_vupdate st \<and> srch_ins st' = srch_ins st \<and>
     srch_upd st' = srch_upd st \<and> srch_slot st' = srch_slot st \<and>
     srch_exp st' = srch_exp st"

definition mem_only :: "session \<Rightarrow> session \<Rightarrow> bool" where
  "mem_only st st' \<longleftrightarrow> hazard st' = hazard st \<and> dsk st' = dsk st \<and> srch_frame st st'"

text \<open>The number of nodes at the head of a chain that sort before the key, which is the
  position of the first node that does not.\<close>

definition chain_pos :: "btree \<Rightarrow> bytes \<Rightarrow> wt_insert list \<Rightarrow> nat" where
  "chain_pos bt key ch = length (takeWhile (\<lambda>n. 0 < btree_compare bt key (ins_key n)) ch)"

text \<open>The slot recorded on a leaf miss (lines 190-196).\<close>

definition leaf_miss_slot :: "nat \<Rightarrow> nat \<Rightarrow> nat" where
  "leaf_miss_slot n base = (if base = 0 then n else base - 1)"

text \<open>The return values are as \<open>__wt_row_search\<close> sets them on entry (lines 29-37).\<close>

definition srch_cleared :: "session \<Rightarrow> bool" where
  "srch_cleared st \<longleftrightarrow>
     srch_page st = None \<and> srch_write_gen st = 0 \<and> \<not> srch_match st \<and> srch_ip st = None \<and>
     srch_vupdate st = None \<and> srch_ins st = None \<and> srch_upd st = None \<and>
     srch_slot st = UINT32_MAX \<and> srch_exp st = None"

text \<open>
  What the search needs of the comparator: it is the three-way comparison of a total
  preorder (the sign of \<open>cmp a b\<close> is opposite to that of \<open>cmp b a\<close>, and "not after"
  is transitive). An insert chain is sorted when every node sorts strictly before the
  nodes after it.
\<close>

definition comparator_ok :: "(bytes \<Rightarrow> bytes \<Rightarrow> int) \<Rightarrow> bool" where
  "comparator_ok cmp \<longleftrightarrow>
     (\<forall>a b. (cmp a b < 0) = (0 < cmp b a)) \<and>
     (\<forall>a b c. cmp a b \<le> 0 \<longrightarrow> cmp b c \<le> 0 \<longrightarrow> cmp a c \<le> 0)"

definition chain_sorted :: "btree \<Rightarrow> wt_insert list \<Rightarrow> bool" where
  "chain_sorted bt ch =
     sorted_wrt (\<lambda>x y. btree_compare bt (ins_key x) (ins_key y) < 0) ch"

text \<open>Modelled from the spec: the write path is not in the source file. The caller splices
  a new node into a chain at the link the search returned: at the head of the chain for
  \<open>&ins[slot]\<close>, after node \<open>j\<close> for the address of that node's \<open>next\<close>.\<close>

fun ins_splice :: "ins_ref \<Rightarrow> wt_insert \<Rightarrow> wt_insert list \<Rightarrow> wt_insert list" where
  "ins_splice (Ins_Head s) new ch = new # ch"
| "ins_splice (Ins_Next s j) new ch = take (Suc j) ch @ new # drop (Suc j) ch"

text \<open>
  The key a slot stands for: the bytes its key/size pair leads to when the key is resident,
  and what the codec decodes from its cell while it is pending. \<open>page_keys\<close> says that
  the \<open>n\<close> entries of the page at \<open>a\<close> stand for the keys \<open>K 0\<close>, ..., \<open>K (n - 1)\<close>
  and that no key pointer leads to heap memory not yet allocated.
\<close>

definition slot_key :: "(nat \<Rightarrow> nat \<Rightarrow> int + bytes) \<Rightarrow> session \<Rightarrow> nat \<Rightarrow> nat \<Rightarrow> bytes option" where
  "slot_key codec st a i =
     (let r = rows st (a, i) in
      if row_size r \<noteq> 0 then wt_item st a r
      else
        (case row_key r of
           Disk off \<Rightarrow> (case codec a off of Inl e \<Rightarrow> None | Inr b \<Rightarrow> Some b)
         | Heap h \<Rightarrow> wt_item st a r))"

definition heap_ptr_ok :: "session \<Rightarrow> nat \<Rightarrow> nat \<Rightarrow> bool" where
  "heap_ptr_ok st a i = (case row_key (rows st (a, i)) of Heap h \<Rightarrow> h < brk st | Disk off \<Rightarrow> True)"

definition page_keys ::
    "(nat \<Rightarrow> nat \<Rightarrow> int + bytes) \<Rightarrow> session \<Rightarrow> nat \<Rightarrow> nat \<Rightarrow> (nat \<Rightarrow> bytes) \<Rightarrow> bool" where
  "page_keys codec st a n K \<longleftrightarrow>
     (\<forall>i<n. slot_key codec st a i = Some (K i) \<and> heap_ptr_ok st a i)"

text \<open>
  The keys from index \<open>m\<close> on sort strictly upwards; \<open>b\<close> is the smallest index from
  \<open>m\<close> on whose key is greater than the key searched, \<open>n\<close> (the array length) when
  there is none.
\<close>

definition keys_sorted :: "btree \<Rightarrow> nat \<Rightarrow> nat \<Rightarrow> (nat \<Rightarrow> bytes) \<Rightarrow> bool" where
  "keys_sorted bt m n K \<longleftrightarrow>
     (\<forall>i j. m \<le> i \<and> i < j \<and> j < n \<longrightarrow> btree_compare bt (K i) (K j) < 0)"

definition is_base :: "btree \<Rightarrow> bytes \<Rightarrow> (nat \<Rightarrow> bytes) \<Rightarrow> nat \<Rightarrow> nat \<Rightarrow> nat \<Rightarrow> bool" where
  "is_base bt key K m n b \<longleftrightarrow>
     m \<le> b \<and> b \<le> n \<and>
     (\<forall>i. m \<le> i \<and> i < b \<longrightarrow> 0 \<le> btree_compare bt key (K i)) \<and>
     (\<forall>i. b \<le> i \<and> i < n \<longrightarrow> btree_compare bt key (K i) < 0)"

text \<open>
  The reference of the spec for the search of a leaf: a linear scan of the slots from
  the first on, which stops with a match at the first key equal to the key searched and
  with a miss at the first key greater than it, or at the end of the array.
  \<open>leaf_outcome\<close> is the outcome lines 154-178 read off the variables the binary search
  leaves: a match at the slot \<open>rip\<close> when \<open>cmp\<close> is 0 (none when \<open>rip\<close> is NULL), a
  miss with \<open>base\<close> otherwise.
\<close>

datatype outcome = Match nat | Miss nat

fun linear_search :: "(bytes \<Rightarrow> bytes \<Rightarrow> int) \<Rightarrow> bytes \<Rightarrow> bytes list \<Rightarrow> nat \<Rightarrow> outcome" where
  "linear_search cmp key [] i = Miss i"
| "linear_search cmp key (k # ks) i =
     (if cmp key k = 0 then Match i
      else if cmp key k < 0 then Miss i
      else linear_search cmp key ks (Suc i))"

definition leaf_outcome :: "nat \<times> int \<times> nat option \<Rightarrow> outcome option" where
  "leaf_outcome r = (case r of (base, cmp, rip) \<Rightarrow>
     if cmp = 0 then map_option Match rip else Some (Miss base))"

text \<open>
  The state of a key as a reader finds it: pending (size 0), or resident (size not 0 and
  the bytes the pointer and the size lead to are there).
\<close>

definition key_state_ok :: "session \<Rightarrow> nat \<times> nat \<Rightarrow> bool" where
  "key_state_ok st k \<longleftrightarrow>
     row_size (rows st k) = 0 \<or>
     (0 < row_size (rows st k) \<and> wt_item st (fst k) (rows st k) \<noteq> None)"

text \<open>
  Two threads race to build the same key: both find it pending, both instantiate the cell
  into a buffer of their own (lines 321-325), then the first and after it the second go
  through the serialized swap (lines 327-334). The result is the two buffers and the
  final state; \<open>None\<close> when the codec fails.
\<close>

definition key_build_race ::
    "(nat \<Rightarrow> nat \<Rightarrow> int + bytes) \<Rightarrow> session \<Rightarrow> nat \<times> nat \<Rightarrow> (wt_buf \<times> wt_buf \<times> session) option" where
  "key_build_race codec st k =
     (case wt_cell_process codec st (fst k) (row_key (rows st k)) of
        (Inl e, s1) \<Rightarrow> None
      | (Inr tmp1, s1) \<Rightarrow>
          (case wt_cell_process codec s1 (fst k) (row_key (rows s1 k)) of
             (Inl e, s2) \<Rightarrow> None
           | (Inr tmp2, s2) \<Rightarrow>
               Some (tmp1, tmp2,
                     snd (wt_key_build_swap (snd (wt_key_build_swap s2 k tmp1)) k tmp2))))"

subsection \<open>A small tree\<close>

text \<open>
  Byte-wise lexicographic comparison, a shorter key before its extensions, as the
  comparator of the tree of the examples.
\<close>

fun lex_compare :: "bytes \<Rightarrow> bytes \<Rightarrow> int" where
  "lex_compare [] [] = 0"
| "lex_compare [] (y # ys) = - 1"
| "lex_compare (x # xs) [] = 1"
| "lex_compare (x # xs) (y # ys) =
     (if x < y then - 1 else if y < x then 1 else lex_compare xs ys)"

text \<open>
  The leaf at address 2 holds the on-disk keys \<open>b, d, f, h\<close> (98, 100, 102, 104); the key
  \<open>f\<close> is a cell at offset 9, not yet instantiated. The chain of slot 1 (\<open>d\<close>) holds
  \<open>da\<close> and \<open>db\<close>, \<open>db\<close> with a deleted update; the update of slot 3 (\<open>h\<close>) is deleted.
  The leaf at address 3 holds \<open>m, p\<close> and has no \<open>upd\<close> or \<open>ins\<close> array. The root, at
  address 1, has the two leaves as children, the second under the key \<open>m\<close>.
\<close>

definition ex_upd2 :: "nat \<Rightarrow> wt_update option" where
  "ex_upd2 s = (if s = 3 then Some \<lparr>upd_deleted = True, upd_data = []\<rparr> else None)"

definition ex_ins2 :: "nat \<Rightarrow> wt_insert list" where
  "ex_ins2 s =
     (if s = 1
      then [\<lparr>ins_key = [100, 97], ins_upd = Some \<lparr>upd_deleted = False, upd_data = [1]\<rparr>\<rparr>,
            \<lparr>ins_key = [100, 98], ins_upd = Some \<lparr>upd_deleted = True, upd_data = []\<rparr>\<rparr>]
      else [])"

definition ex_leaf2 :: page where
  "ex_leaf2 = Row_Leaf 2 4 7 (Some ex_upd2) (Some ex_ins2)"

definition ex_leaf3 :: page where
  "ex_leaf3 = Row_Leaf 3 2 0 None None"

definition ex_root :: page where
  "ex_root = Row_Int 1 ex_leaf2 [ex_leaf3]"

definition ex_bt :: btree where
  "ex_bt = \<lparr>btree_compare = lex_compare, root_page = ex_root\<rparr>"

definition ex_codec :: "nat \<Rightarrow> nat \<Rightarrow> int + bytes" where
  "ex_codec a off = (if a = 2 \<and> off = 9 then Inr [102] else Inl 5)"

definition ex_pin :: "nat \<Rightarrow> int option" where
  "ex_pin a = None"

definition ex_st :: session where
  "ex_st =
     \<lparr>heap = (\<lambda>h. None), brk = 0,
      dsk = (\<lambda>a. if a = 1 then [0, 109] else if a = 2 then [98, 100, 102, 104] else [109, 112]),
      rows = (\<lambda>(a, i). if a = 2 \<and> i = 2 then \<lparr>row_key = Disk 9, row_size = 0\<rparr>
                        else \<lparr>row_key = Disk i, row_size = 1\<rparr>),
      hazard = [1], srch_page = None, srch_write_gen = 0, srch_match = False, srch_ip = None,
      srch_vupdate = None, srch_ins = None, srch_upd = None, srch_slot = 0, srch_exp = None\<rparr>"

text \<open>A page provider that cannot pin the leaf at address 2, and a session in which the
  key of slot 1 of that leaf is a cell, at offset 8, that the codec cannot decode.\<close>

definition ex_pin_fail :: "nat \<Rightarrow> int option" where
  "ex_pin_fail a = (if a = 2 then Some 7 else None)"

definition ex_st_cell :: session where
  "ex_st_cell =
     ex_st\<lparr>rows := (\<lambda>(a, i). if a = 2 \<and> i = 1 then \<lparr>row_key = Disk 8, row_size = 0\<rparr>
                              else rows ex_st (a, i))\<rparr>"

text \<open>The keys of the leaf at address 2 and of the root, and an empty tree: its root is
  a leaf page without slots.\<close>

definition ex_leaf2_keys :: "nat \<Rightarrow> bytes" where
  "ex_leaf2_keys i =
     (if i = 0 then [98] else if i = 1 then [100] else if i = 2 then [102] else [104])"

definition ex_root_keys :: "nat \<Rightarrow> bytes" where
  "ex_root_keys i = (if i = 0 then [0] else [109])"

definition ex_empty_bt :: btree where
  "ex_empty_bt = \<lparr>btree_compare = lex_compare, root_page = Row_Leaf 1 0 0 None None\<rparr>"

section \<open>Properties\<close>

lemmas ex_defs = ex_st_def ex_bt_def ex_codec_def ex_pin_def ex_root_def ex_leaf2_def
  ex_leaf3_def ex_upd2_def ex_ins2_def

lemmas key_build_defs = wt_key_instantiate_def wt_key_process_def wt_key_build_def
  wt_cell_process_def wt_key_build_swap_def wt_key_build_serial_func_def serial_stores_def
  store_key_def store_size_def wt_free_def wt_item_def

lemmas search_defs = wt_row_search_def clear_return_values_def row_search_leaf_def
  search_done_def search_err_def search_notfound_def WT_PAGE_OUT_def wt_hazard_clear_def
  wt_page_in_def WT_ROW_INSERT_SLOT_def WT_UPDATE_DELETED_ISSET_def UINT32_MAX_def
  descent_ref_def row_int_loop.simps row_leaf_loop.simps

subsection \<open>What each step leaves alone\<close>

lemma mem_only_refl: "mem_only st st"
  by (simp add: mem_only_def srch_frame_def)

lemma mem_only_trans: "mem_only s1 s2 \<Longrightarrow> mem_only s2 s3 \<Longrightarrow> mem_only s1 s3"
  by (simp add: mem_only_def srch_frame_def)

lemma wt_key_build_mem_only: "wt_key_build codec st k = (r, st') \<Longrightarrow> mem_only st st'"
  by (auto simp: wt_key_build_def wt_cell_process_def wt_key_build_swap_def
        wt_key_build_serial_func_def serial_stores_def store_key_def store_size_def wt_free_def
        mem_only_def srch_frame_def Let_def
      split: if_splits ptr.splits sum.splits prod.splits)

lemma wt_key_instantiate_mem_only: "wt_key_instantiate codec st k = (r, st') \<Longrightarrow> mem_only st st'"
  by (auto simp: wt_key_instantiate_def mem_only_refl dest: wt_key_build_mem_only split: if_splits)

lemma row_leaf_loop_mem_only:
  "row_leaf_loop codec bt key a st base limit cmp rip = (r, st') \<Longrightarrow> mem_only st st'"
proof (induction codec bt key a st base limit cmp rip arbitrary: r st' rule: row_leaf_loop.induct)
  case (1 codec bt key a st base limit cmp rip)
  show ?case
  proof (cases "limit = 0")
    case True
    with "1.prems" show ?thesis by (simp add: row_leaf_loop.simps mem_only_refl)
  next
    case False
    obtain e st1 where I: "wt_key_instantiate codec st (a, base + limit div 2) = (e, st1)"
      by fastforce
    have M: "mem_only st st1" using I by (rule wt_key_instantiate_mem_only)
    from "1.prems" False I "1.IH" [OF False refl I [symmetric]] M show ?thesis
      by (auto simp: row_leaf_loop.simps [of codec bt key a st] Let_def
            split: option.splits if_splits intro: mem_only_trans)
  qed
qed


lemma row_int_loop_mem_only:
  "row_int_loop codec bt key a st base limit cmp rref probes = (r, st') \<Longrightarrow> mem_only st st'"
proof (induction codec bt key a st base limit cmp rref probes arbitrary: r st'
       rule: row_int_loop.induct)
  case (1 codec bt key a st base limit cmp rref probes)
  show ?case
  proof (cases "limit = 0")
    case True
    with "1.prems" show ?thesis by (simp add: row_int_loop.simps mem_only_refl)
  next
    case False
    obtain e st1 where I: "wt_key_instantiate codec st (a, base + limit div 2) = (e, st1)"
      by fastforce
    have M: "mem_only st st1" using I by (rule wt_key_instantiate_mem_only)
    from "1.prems" False I "1.IH" [OF False refl I [symmetric]] M show ?thesis
      by (auto simp: row_int_loop.simps [of codec bt key a st] Let_def
            split: option.splits if_splits intro: mem_only_trans)
  qed
qed

lemma srch_frame_refl: "srch_frame st st"
  by (simp add: srch_frame_def)

lemma srch_frame_trans: "srch_frame s1 s2 \<Longrightarrow> srch_frame s2 s3 \<Longrightarrow> srch_frame s1 s3"
  by (simp add: srch_frame_def)

lemma mem_only_srch_frame: "mem_only st st' \<Longrightarrow> srch_frame st st'"
  by (simp add: mem_only_def)

lemma wt_page_in_srch_frame: "wt_page_in pin_err st x = (r, st') \<Longrightarrow> srch_frame st st'"
  by (auto simp: wt_page_in_def srch_frame_def split: option.splits)

lemma wt_hazard_clear_srch_frame: "srch_frame st (wt_hazard_clear st x)"
  by (simp add: wt_hazard_clear_def srch_frame_def)

lemma WT_PAGE_OUT_srch_frame: "srch_frame st (WT_PAGE_OUT bt st p)"
  by (simp add: WT_PAGE_OUT_def wt_hazard_clear_srch_frame srch_frame_refl)

lemma descend_srch_frame:
  "descend codec pin_err bt key cmp st p = (r, st') \<Longrightarrow> srch_frame st st'"
proof (induction codec pin_err bt key cmp st p arbitrary: r st' rule: descend.induct)
  case (1 codec pin_err bt key cmp st a n g u i)
  then show ?case by (simp add: srch_frame_refl)
next
  case (2 codec pin_err bt key cmp st a c cs)
  obtain x st1 where L: "row_int_loop codec bt key a st 0 (Suc (length cs)) cmp None [] = (x, st1)"
    by fastforce
  have F1: "srch_frame st st1"
    using L by (blast intro: mem_only_srch_frame row_int_loop_mem_only)
  show ?case
  proof (cases x)
    case (Inl e)
    with "2.prems" L F1 show ?thesis by simp
  next
    case (Inr y)
    obtain base cmp1 rref probes where y: "y = (base, cmp1, rref, probes)"
      by (cases y) auto
    show ?thesis
    proof (cases "descent_ref base cmp1 rref")
      case None
      with "2.prems" L F1 Inr y show ?thesis by simp
    next
      case (Some r0)
      show ?thesis
      proof (cases "r0 < Suc (length cs)")
        case False
        with "2.prems" L F1 Inr y Some show ?thesis by simp
      next
        case True
        obtain e st2 where P: "wt_page_in pin_err st1 (paddr ((c # cs) ! r0)) = (e, st2)"
          by fastforce
        have F2: "srch_frame st1 st2" using P by (rule wt_page_in_srch_frame)
        show ?thesis
        proof (cases e)
          case (Some e')
          with "2.prems" L Inr y \<open>descent_ref base cmp1 rref = Some r0\<close> True P
          have "st' = st2" by simp
          with F1 F2 show ?thesis by (blast intro: srch_frame_trans)
        next
          case None
          let ?st3 = "if a \<noteq> paddr (root_page bt) then wt_hazard_clear st2 a else st2"
          have F3: "srch_frame st2 ?st3"
            by (simp add: wt_hazard_clear_srch_frame srch_frame_refl)
          from "2.prems" L Inr y \<open>descent_ref base cmp1 rref = Some r0\<close> True P None
          have "descend codec pin_err bt key cmp1 ?st3 ((c # cs) ! r0) = (r, st')"
            by simp
          from "2.IH" [OF L [symmetric] Inr y [symmetric] refl refl
              \<open>descent_ref base cmp1 rref = Some r0\<close> True P [symmetric] None this]
          have "srch_frame ?st3 st'" .
          with F1 F2 F3 show ?thesis by (blast intro: srch_frame_trans)
        qed
      qed
    qed
  qed
qed

subsection \<open>The chain search and the leaf stage\<close>

lemma chain_pos_Nil: "chain_pos bt key [] = 0"
  by (simp add: chain_pos_def)

lemma chain_pos_Cons:
  "chain_pos bt key (n # ns) =
     (if 0 < btree_compare bt key (ins_key n) then Suc (chain_pos bt key ns) else 0)"
  by (simp add: chain_pos_def)

lemma wt_ins_search_eq:
  "wt_ins_search bt st s j ch key =
     (let pos = chain_pos bt key ch in
      if pos < length ch \<and> btree_compare bt key (ins_key (ch ! pos)) = 0
      then (0, st\<lparr>srch_ins := None, srch_vupdate := ins_upd (ch ! pos),
                  srch_upd := Some (Ins_Upd s (j + pos))\<rparr>)
      else (1, if pos = 0 then st else st\<lparr>srch_ins := Some (Ins_Next s (j + pos - 1))\<rparr>))"
proof (induction ch arbitrary: st j)
  case Nil
  show ?case by (simp add: chain_pos_Nil)
next
  case (Cons n ns)
  show ?case
    by (cases "chain_pos bt key ns = 0")
       (auto simp: chain_pos_Cons Cons.IH Let_def)
qed

lemma search_done_write:
  "search_done bt True (Row_Leaf a n g u i) wg cmp rip st =
     (None, st\<lparr>srch_page := Some a, srch_write_gen := wg, srch_match := (cmp = 0),
               srch_ip := rip\<rparr>)"
  by (simp add: search_done_def)

lemma search_done_slot: "srch_slot (snd (search_done bt w p wg cmp rip st)) = srch_slot st"
  by (auto simp: search_done_def search_err_def search_notfound_def WT_PAGE_OUT_def
        wt_hazard_clear_def split: page.splits option.splits)

lemma search_notfound_slot: "srch_slot (snd (search_notfound bt p st)) = srch_slot st"
  by (simp add: search_err_def search_notfound_def WT_PAGE_OUT_def wt_hazard_clear_def)

lemma wt_ins_search_slot: "srch_slot (snd (wt_ins_search bt st s j ch key)) = srch_slot st"
  by (simp add: wt_ins_search_eq Let_def)

lemma row_search_leaf_miss:
  assumes L: "row_leaf_loop codec bt key a st 0 n cmp0 None = (Inr (base, cmp, rip), st1)"
    and C: "cmp \<noteq> 0"
  shows "row_search_leaf codec bt key write (Row_Leaf a n g u i) cmp0 st =
     (case wt_ins_search bt
             (if i \<noteq> None
              then st1\<lparr>srch_slot := leaf_miss_slot n base,
                       srch_ins := Some (Ins_Head (leaf_miss_slot n base))\<rparr>
              else st1\<lparr>srch_slot := leaf_miss_slot n base\<rparr>)
             (leaf_miss_slot n base) 0 (WT_ROW_INSERT_SLOT i (leaf_miss_slot n base)) key of
        (cmp', st4) \<Rightarrow>
          if cmp' \<noteq> 0 \<and> \<not> write then search_notfound bt (Row_Leaf a n g u i) st4
          else search_done bt write (Row_Leaf a n g u i) g cmp' (Some (base - 1)) st4)"
proof (cases "WT_ROW_INSERT_SLOT i (leaf_miss_slot n base)")
  case Nil
  with L C show ?thesis
    by (cases "base = 0"; cases "write")
       (simp_all add: row_search_leaf_def leaf_miss_slot_def Let_def search_done_write)
next
  case (Cons x xs)
  with L C show ?thesis
    by (cases "base = 0")
       (simp_all add: row_search_leaf_def leaf_miss_slot_def Let_def split: prod.splits)
qed

lemma row_search_leaf_match:
  assumes L: "row_leaf_loop codec bt key a st 0 n cmp0 None = (Inr (base, 0, Some slot), st1)"
  shows "row_search_leaf codec bt key write (Row_Leaf a n g u i) cmp0 st =
     search_done bt write (Row_Leaf a n g u i) g 0 (Some slot)
       (case u of
          None \<Rightarrow> st1\<lparr>srch_slot := slot\<rparr>
        | Some ua \<Rightarrow> st1\<lparr>srch_slot := slot, srch_upd := Some (Upd_Slot slot),
                         srch_vupdate := ua slot\<rparr>)"
  using L by (simp add: row_search_leaf_def Let_def split: option.splits)

lemma wt_row_search_leaf:
  assumes "descend codec pin_err bt key 0 (clear_return_values st) (root_page bt) = (Inr (p, c), st1)"
  shows "wt_row_search codec pin_err bt st key write = row_search_leaf codec bt key write p c st1"
  using assms by (simp add: wt_row_search_def)

lemma srch_ins_at_leaf:
  assumes D: "descend codec pin_err bt key 0 (clear_return_values st) (root_page bt) =
                (Inr (p, c), st1)"
    and L: "row_leaf_loop codec bt key a st1 0 n c None = (x, st2)"
  shows "srch_frame (clear_return_values st) st2"
  using descend_srch_frame [OF D] mem_only_srch_frame [OF row_leaf_loop_mem_only [OF L]]
  by (rule srch_frame_trans)

subsection \<open>The slot recorded on a leaf miss\<close>

text \<open>
  C10. On every leaf miss (the binary search of the leaf ends with \<open>cmp\<close> not 0) the
  search records in \<open>srch_slot\<close> the slot to use for allocating the page's update and
  insert arrays: the page's slot count \<open>indx_count\<close> when \<open>base\<close> is 0, which is the
  extra position for the keys smaller than any on the page, and the bracketing slot
  \<open>base - 1\<close> otherwise; whatever the flags and the outcome of the chain search.
\<close>

theorem leaf_miss_records_slot:
  assumes D: "descend codec pin_err bt key 0 (clear_return_values st) (root_page bt) =
                (Inr (Row_Leaf a n g u i, c), st1)"
    and L: "row_leaf_loop codec bt key a st1 0 n c None = (Inr (base, cmp, rip), st2)"
    and C: "cmp \<noteq> 0"
  shows "srch_slot (snd (wt_row_search codec pin_err bt st key write)) =
           (if base = 0 then n else base - 1)"
proof -
  let ?st3 = "if i \<noteq> None
              then st2\<lparr>srch_slot := leaf_miss_slot n base,
                       srch_ins := Some (Ins_Head (leaf_miss_slot n base))\<rparr>
              else st2\<lparr>srch_slot := leaf_miss_slot n base\<rparr>"
  obtain cmp' st4 where
    S: "wt_ins_search bt ?st3 (leaf_miss_slot n base) 0
          (WT_ROW_INSERT_SLOT i (leaf_miss_slot n base)) key = (cmp', st4)"
    by fastforce
  have "srch_slot st4 = srch_slot ?st3"
    using wt_ins_search_slot [of bt ?st3 "leaf_miss_slot n base" 0
        "WT_ROW_INSERT_SLOT i (leaf_miss_slot n base)" key] S by simp
  then have "srch_slot st4 = leaf_miss_slot n base" by simp
  moreover have "srch_slot (snd (wt_row_search codec pin_err bt st key write)) = srch_slot st4"
    unfolding wt_row_search_leaf [OF D] row_search_leaf_miss [OF L C] S
    by (simp add: search_done_slot search_notfound_slot)
  ultimately show ?thesis by (simp add: leaf_miss_slot_def)
qed

theorem leaf_miss_records_slot_witness:
  "fst (row_leaf_loop ex_codec ex_bt [101] 2
         (snd (descend ex_codec ex_pin ex_bt [101] 0 (clear_return_values ex_st) (root_page ex_bt)))
         0 4 (- 1) None) = Inr (2, 1, Some 1) \<and>
   srch_slot (snd (wt_row_search ex_codec ex_pin ex_bt ex_st [101] False)) = 1"
proof -
  let ?D = "descend ex_codec ex_pin ex_bt [101] 0 (clear_return_values ex_st) (root_page ex_bt)"
  let ?L = "row_leaf_loop ex_codec ex_bt [101] 2 (snd ?D) 0 4 (- 1) None"
  have D: "?D = (Inr (Row_Leaf 2 4 7 (Some ex_upd2) (Some ex_ins2), - 1), snd ?D)"
    by (simp add: prod_eq_iff ex_defs key_build_defs search_defs)
  have L1: "fst ?L = Inr (2, 1, Some 1)"
    by (simp add: ex_defs key_build_defs search_defs)
  then have L: "?L = (Inr (2, 1, Some 1), snd ?L)"
    by (simp add: prod_eq_iff)
  have "srch_slot (snd (wt_row_search ex_codec ex_pin ex_bt ex_st [101] False)) = 1"
    using leaf_miss_records_slot [OF D L, of False] by simp
  with L1 show ?thesis by blast
qed

subsection \<open>The pin of the leaf\<close>

lemma WT_PAGE_OUT_hazard:
  "hazard (WT_PAGE_OUT bt st p) =
     (if paddr p \<noteq> paddr (root_page bt) then remove1 (paddr p) (hazard st) else hazard st)"
  by (simp add: WT_PAGE_OUT_def wt_hazard_clear_def)

lemma WT_PAGE_OUT_hazard_cong:
  "hazard s = hazard t \<Longrightarrow> hazard (WT_PAGE_OUT bt s p) = hazard (WT_PAGE_OUT bt t p)"
  by (simp add: WT_PAGE_OUT_hazard)

lemma WT_PAGE_OUT_srch_page: "srch_page (WT_PAGE_OUT bt st p) = srch_page st"
  by (simp add: WT_PAGE_OUT_def wt_hazard_clear_def)

lemma search_err_outcome:
  "search_err bt p e s = (r, s') \<Longrightarrow>
     r = Some e \<and> hazard s' = hazard (WT_PAGE_OUT bt s p) \<and> srch_page s' = srch_page s"
  by (auto simp: search_err_def WT_PAGE_OUT_srch_page)

lemma search_done_outcome:
  assumes "search_done bt w (Row_Leaf a n g u i) wg c rip s = (r, s')"
  shows "(r = None \<longrightarrow> hazard s' = hazard s \<and> srch_page s' = Some a) \<and>
         (r \<noteq> None \<longrightarrow> hazard s' = hazard (WT_PAGE_OUT bt s (Row_Leaf a n g u i)) \<and>
                         srch_page s' = srch_page s)"
  using assms
  by (auto simp: search_done_def search_notfound_def search_err_def WT_PAGE_OUT_srch_page
      split: option.splits if_splits)

lemma wt_ins_search_hazard: "hazard (snd (wt_ins_search bt st s j ch key)) = hazard st"
  by (simp add: wt_ins_search_eq Let_def)

lemma wt_ins_search_srch_page: "srch_page (snd (wt_ins_search bt st s j ch key)) = srch_page st"
  by (simp add: wt_ins_search_eq Let_def)

lemma row_search_leaf_outcome:
  assumes R: "row_search_leaf codec bt key write (Row_Leaf a n g u i) c st1 = (r, st')"
  shows "(r = None \<longrightarrow> hazard st' = hazard st1 \<and> srch_page st' = Some a) \<and>
         (r \<noteq> None \<longrightarrow> hazard st' = hazard (WT_PAGE_OUT bt st1 (Row_Leaf a n g u i)) \<and>
                         srch_page st' = srch_page st1)"
proof -
  let ?p = "Row_Leaf a n g u i"
  obtain x st2 where L: "row_leaf_loop codec bt key a st1 0 n c None = (x, st2)"
    by fastforce
  have M: "hazard st2 = hazard st1" "srch_page st2 = srch_page st1"
    using row_leaf_loop_mem_only [OF L] by (simp_all add: mem_only_def srch_frame_def)
  show ?thesis
  proof (cases x)
    case (Inl e)
    with R L have "search_err bt ?p e st2 = (r, st')"
      by (simp add: row_search_leaf_def)
    from search_err_outcome [OF this] M show ?thesis
      by (simp add: WT_PAGE_OUT_hazard)
  next
    case (Inr y)
    obtain base cmp rip where y: "y = (base, cmp, rip)" by (cases y) auto
    note L' = L [unfolded Inr y]
    show ?thesis
    proof (cases "cmp = 0")
      case True
      show ?thesis
      proof (cases rip)
        case None
        with R L' True have "search_err bt ?p Undefined_Behaviour st2 = (r, st')"
          by (simp add: row_search_leaf_def)
        from search_err_outcome [OF this] M show ?thesis
          by (simp add: WT_PAGE_OUT_hazard)
      next
        case (Some slot)
        let ?s = "case u of
                    None \<Rightarrow> st2\<lparr>srch_slot := slot\<rparr>
                  | Some ua \<Rightarrow> st2\<lparr>srch_slot := slot, srch_upd := Some (Upd_Slot slot),
                                   srch_vupdate := ua slot\<rparr>"
        have S: "hazard ?s = hazard st1" "srch_page ?s = srch_page st1"
          using M by (simp_all split: option.splits)
        from R row_search_leaf_match [OF L' [unfolded True Some], of "write" g u i]
        have "search_done bt write ?p g 0 (Some slot) ?s = (r, st')" by simp
        from search_done_outcome [OF this] S show ?thesis
          by (simp add: WT_PAGE_OUT_hazard)
      qed
    next
      case False
      let ?s3 = "if i \<noteq> None
                 then st2\<lparr>srch_slot := leaf_miss_slot n base,
                          srch_ins := Some (Ins_Head (leaf_miss_slot n base))\<rparr>
                 else st2\<lparr>srch_slot := leaf_miss_slot n base\<rparr>"
      obtain cmp' st4 where
        S: "wt_ins_search bt ?s3 (leaf_miss_slot n base) 0
              (WT_ROW_INSERT_SLOT i (leaf_miss_slot n base)) key = (cmp', st4)"
        by fastforce
      have S4: "hazard st4 = hazard st1" "srch_page st4 = srch_page st1"
        using wt_ins_search_hazard [of bt ?s3 "leaf_miss_slot n base" 0
            "WT_ROW_INSERT_SLOT i (leaf_miss_slot n base)" key]
          wt_ins_search_srch_page [of bt ?s3 "leaf_miss_slot n base" 0
            "WT_ROW_INSERT_SLOT i (leaf_miss_slot n base)" key] S M
        by simp_all
      from R have R': "(if cmp' \<noteq> 0 \<and> \<not> write then search_notfound bt ?p st4
              else search_done bt write ?p g cmp' (Some (base - 1)) st4) = (r, st')"
        unfolding row_search_leaf_miss [OF L' False] S by simp
      show ?thesis
      proof (cases "cmp' \<noteq> 0 \<and> \<not> write")
        case True
        with R' have "search_err bt ?p WT_NOTFOUND st4 = (r, st')"
          by (simp add: search_notfound_def)
        from search_err_outcome [OF this] S4 show ?thesis
          by (simp add: WT_PAGE_OUT_hazard)
      next
        case False
        with R' have "search_done bt write ?p g cmp' (Some (base - 1)) st4 = (r, st')"
          by simp
        from search_done_outcome [OF this] S4 show ?thesis
          by (simp add: WT_PAGE_OUT_hazard)
      qed
    qed
  qed
qed

lemma srch_page_after_descent:
  assumes D: "descend codec pin_err bt key 0 (clear_return_values st) (root_page bt) = (x, st1)"
  shows "srch_page st1 = None"
  using descend_srch_frame [OF D] by (simp add: srch_frame_def clear_return_values_def)

text \<open>
  C6, as the code has it. When the search returns 0, the hazard references are those held
  when the descent reached the leaf (the leaf's pin is not released) and \<open>srch_page\<close> is
  the leaf. When it returns \<open>WT_NOTFOUND\<close>, the search itself has released the pin of
  the leaf with \<open>WT_PAGE_OUT\<close> (lines 244-248) and \<open>srch_page\<close> is NULL.
\<close>

theorem leaf_pin_after_search:
  assumes D: "descend codec pin_err bt key 0 (clear_return_values st) (root_page bt) =
                (Inr (Row_Leaf a n g u i, c), st1)"
    and R: "wt_row_search codec pin_err bt st key write = (r, st')"
  shows "(r = None \<longrightarrow> hazard st' = hazard st1 \<and> srch_page st' = Some a) \<and>
         (r = Some WT_NOTFOUND \<longrightarrow>
            hazard st' = hazard (WT_PAGE_OUT bt st1 (Row_Leaf a n g u i)) \<and>
            srch_page st' = None)"
  using row_search_leaf_outcome [OF R [unfolded wt_row_search_leaf [OF D]]]
    srch_page_after_descent [OF D]
  by simp

theorem leaf_pin_after_search_witness:
  "hazard (snd (wt_row_search ex_codec ex_pin ex_bt ex_st [100] True)) =
     hazard (snd (descend ex_codec ex_pin ex_bt [100] 0 (clear_return_values ex_st)
                    (root_page ex_bt))) \<and>
   srch_page (snd (wt_row_search ex_codec ex_pin ex_bt ex_st [100] True)) = Some 2 \<and>
   hazard (snd (wt_row_search ex_codec ex_pin ex_bt ex_st [101] False)) =
     hazard (WT_PAGE_OUT ex_bt
               (snd (descend ex_codec ex_pin ex_bt [101] 0 (clear_return_values ex_st)
                       (root_page ex_bt)))
               (Row_Leaf 2 4 7 (Some ex_upd2) (Some ex_ins2))) \<and>
   srch_page (snd (wt_row_search ex_codec ex_pin ex_bt ex_st [101] False)) = None"
proof -
  let ?D = "\<lambda>key. descend ex_codec ex_pin ex_bt key 0 (clear_return_values ex_st) (root_page ex_bt)"
  let ?R = "\<lambda>key w. wt_row_search ex_codec ex_pin ex_bt ex_st key w"
  have D1: "?D [100] = (Inr (Row_Leaf 2 4 7 (Some ex_upd2) (Some ex_ins2), - 1), snd (?D [100]))"
    by (simp add: prod_eq_iff ex_defs key_build_defs search_defs)
  have D2: "?D [101] = (Inr (Row_Leaf 2 4 7 (Some ex_upd2) (Some ex_ins2), - 1), snd (?D [101]))"
    by (simp add: prod_eq_iff ex_defs key_build_defs search_defs)
  have "fst (?R [100] True) = None"
    by (simp add: ex_defs key_build_defs search_defs)
  then have R1: "?R [100] True = (None, snd (?R [100] True))"
    by (simp add: prod_eq_iff)
  have "fst (?R [101] False) = Some WT_NOTFOUND"
    by (simp add: ex_defs key_build_defs search_defs)
  then have R2: "?R [101] False = (Some WT_NOTFOUND, snd (?R [101] False))"
    by (simp add: prod_eq_iff)
  from leaf_pin_after_search [OF D1 R1] leaf_pin_after_search [OF D2 R2]
  show ?thesis by simp
qed

text \<open>
  C6 as stated fails: the search for \<open>e\<close> without \<open>WT_WRITE\<close> reaches the leaf at
  address 2, pinned by the descent, returns \<open>WT_NOTFOUND\<close>, and the pin is gone.
\<close>

theorem leaf_pin_released_on_notfound:
  "fst (descend ex_codec ex_pin ex_bt [101] 0 (clear_return_values ex_st) (root_page ex_bt)) =
     Inr (ex_leaf2, - 1) \<and>
   2 \<in> set (hazard (snd (descend ex_codec ex_pin ex_bt [101] 0 (clear_return_values ex_st)
                            (root_page ex_bt)))) \<and>
   fst (wt_row_search ex_codec ex_pin ex_bt ex_st [101] False) = Some WT_NOTFOUND \<and>
   2 \<notin> set (hazard (snd (wt_row_search ex_codec ex_pin ex_bt ex_st [101] False))) \<and>
   srch_page (snd (wt_row_search ex_codec ex_pin ex_bt ex_st [101] False)) = None"
  by (simp add: ex_defs key_build_defs search_defs)

subsection \<open>The chain search when positioning for a write\<close>

text \<open>
  C5, as the code has it. With \<open>WT_WRITE\<close>, on a leaf miss the search returns 0 and the
  session is the one \<open>__wt_ins_search\<close> leaves, run on the chain of the slot recorded for
  the miss, with its insertion point \<open>srch_ins\<close> (and \<open>srch_match\<close> telling whether the
  chain matched); on an exact on-disk match the chain is not searched and no insertion
  point is recorded.
\<close>

theorem write_search_chain:
  assumes D: "descend codec pin_err bt key 0 (clear_return_values st) (root_page bt) =
                (Inr (Row_Leaf a n g u i, c), st1)"
    and L: "row_leaf_loop codec bt key a st1 0 n c None = (Inr (base, cmp, rip), st2)"
  defines "slot \<equiv> leaf_miss_slot n base"
  defines "st3 \<equiv> (if i \<noteq> None then st2\<lparr>srch_slot := slot, srch_ins := Some (Ins_Head slot)\<rparr>
                   else st2\<lparr>srch_slot := slot\<rparr>)"
  defines "S \<equiv> wt_ins_search bt st3 slot 0 (WT_ROW_INSERT_SLOT i slot) key"
  shows "(cmp \<noteq> 0 \<longrightarrow>
            wt_row_search codec pin_err bt st key True =
              (None, (snd S)\<lparr>srch_page := Some a, srch_write_gen := g,
                             srch_match := (fst S = 0), srch_ip := Some (base - 1)\<rparr>)) \<and>
         (cmp = 0 \<and> rip \<noteq> None \<longrightarrow>
            fst (wt_row_search codec pin_err bt st key True) = None \<and>
            srch_match (snd (wt_row_search codec pin_err bt st key True)) \<and>
            srch_ins (snd (wt_row_search codec pin_err bt st key True)) = None)"
proof -
  have A: "wt_row_search codec pin_err bt st key True =
          (None, (snd S)\<lparr>srch_page := Some a, srch_write_gen := g,
                         srch_match := (fst S = 0), srch_ip := Some (base - 1)\<rparr>)"
    if C: "cmp \<noteq> 0"
    unfolding wt_row_search_leaf [OF D] row_search_leaf_miss [OF L C]
    by (simp add: S_def st3_def slot_def search_done_write split: prod.splits)
  have I: "srch_ins st2 = None"
    using srch_ins_at_leaf [OF D L] by (simp add: srch_frame_def clear_return_values_def)
  have B: "fst (wt_row_search codec pin_err bt st key True) = None \<and>
      srch_match (snd (wt_row_search codec pin_err bt st key True)) \<and>
      srch_ins (snd (wt_row_search codec pin_err bt st key True)) = None"
    if C: "cmp = 0" and rip: "rip = Some sl" for sl
    unfolding wt_row_search_leaf [OF D] row_search_leaf_match [OF L [unfolded C rip]]
    using I by (simp add: search_done_write split: option.splits)
  from A B show ?thesis by auto
qed

theorem write_search_chain_witness:
  "fst (wt_row_search ex_codec ex_pin ex_bt ex_st [101] True) = None \<and>
   srch_ins (snd (wt_row_search ex_codec ex_pin ex_bt ex_st [101] True)) = Some (Ins_Next 1 1) \<and>
   srch_ins (snd (wt_row_search ex_codec ex_pin ex_bt ex_st [100] True)) = None"
proof -
  let ?D = "\<lambda>key. descend ex_codec ex_pin ex_bt key 0 (clear_return_values ex_st) (root_page ex_bt)"
  let ?L = "\<lambda>key. row_leaf_loop ex_codec ex_bt key 2 (snd (?D key)) 0 4 (- 1) None"
  have D1: "?D [101] = (Inr (Row_Leaf 2 4 7 (Some ex_upd2) (Some ex_ins2), - 1), snd (?D [101]))"
    by (simp add: prod_eq_iff ex_defs key_build_defs search_defs)
  have D2: "?D [100] = (Inr (Row_Leaf 2 4 7 (Some ex_upd2) (Some ex_ins2), - 1), snd (?D [100]))"
    by (simp add: prod_eq_iff ex_defs key_build_defs search_defs)
  have "fst (?L [101]) = Inr (2, 1, Some 1)"
    by (simp add: ex_defs key_build_defs search_defs)
  then have L1: "?L [101] = (Inr (2, 1, Some 1), snd (?L [101]))"
    by (simp add: prod_eq_iff)
  have "fst (?L [100]) = Inr (0, 0, Some 1)"
    by (simp add: ex_defs key_build_defs search_defs)
  then have L2: "?L [100] = (Inr (0, 0, Some 1), snd (?L [100]))"
    by (simp add: prod_eq_iff)
  have "wt_row_search ex_codec ex_pin ex_bt ex_st [101] True =
          (None, (snd (wt_ins_search ex_bt
                   ((snd (?L [101]))\<lparr>srch_slot := 1, srch_ins := Some (Ins_Head 1)\<rparr>) 1 0
                   (ex_ins2 1) [101]))
                 \<lparr>srch_page := Some 2, srch_write_gen := 7,
                    srch_match := (fst (wt_ins_search ex_bt
                      ((snd (?L [101]))\<lparr>srch_slot := 1, srch_ins := Some (Ins_Head 1)\<rparr>) 1 0
                      (ex_ins2 1) [101]) = 0),
                    srch_ip := Some 1\<rparr>)"
    using write_search_chain [OF D1 L1]
    by (simp add: leaf_miss_slot_def WT_ROW_INSERT_SLOT_def)
  then have A: "fst (wt_row_search ex_codec ex_pin ex_bt ex_st [101] True) = None"
    "srch_ins (snd (wt_row_search ex_codec ex_pin ex_bt ex_st [101] True)) = Some (Ins_Next 1 1)"
    by (simp_all add: ex_bt_def ex_ins2_def)
  have B: "srch_ins (snd (wt_row_search ex_codec ex_pin ex_bt ex_st [100] True)) = None"
    using write_search_chain [OF D2 L2] by simp
  from A B show ?thesis by blast
qed

text \<open>
  C5 as stated fails: the search for \<open>d\<close> with \<open>WT_WRITE\<close> matches slot 1 on the page;
  the chain of that slot has two nodes, and no insertion point is recorded.
\<close>

theorem write_search_skips_chain_on_match:
  "fst (wt_row_search ex_codec ex_pin ex_bt ex_st [100] True) = None \<and>
   srch_match (snd (wt_row_search ex_codec ex_pin ex_bt ex_st [100] True)) \<and>
   srch_slot (snd (wt_row_search ex_codec ex_pin ex_bt ex_st [100] True)) = 1 \<and>
   length (ex_ins2 1) = 2 \<and>
   srch_ins (snd (wt_row_search ex_codec ex_pin ex_bt ex_st [100] True)) = None"
  by (simp add: ex_defs key_build_defs search_defs)

subsection \<open>Deleted keys\<close>

text \<open>
  C4. A search that finds a key whose update is deleted, on the page (slot \<open>slot\<close>, with
  the update \<open>upd[slot]\<close>) or in the insert chain (node \<open>pos\<close> of the chain searched),
  returns \<open>WT_NOTFOUND\<close> without \<open>WT_WRITE\<close>; with \<open>WT_WRITE\<close> it returns 0 with
  \<open>srch_match\<close> set and the deleted update in \<open>srch_vupdate\<close>, referenced by \<open>srch_upd\<close>.
\<close>

theorem tombstone_visibility:
  assumes D: "descend codec pin_err bt key 0 (clear_return_values st) (root_page bt) =
                (Inr (Row_Leaf a n g u i, c), st1)"
    and L: "row_leaf_loop codec bt key a st1 0 n c None = (Inr (base, cmp, rip), st2)"
  shows "(cmp = 0 \<and> rip = Some slot \<and> u = Some ua \<and> ua slot = Some v \<and> upd_deleted v \<longrightarrow>
            fst (wt_row_search codec pin_err bt st key False) = Some WT_NOTFOUND \<and>
            fst (wt_row_search codec pin_err bt st key True) = None \<and>
            srch_match (snd (wt_row_search codec pin_err bt st key True)) \<and>
            srch_vupdate (snd (wt_row_search codec pin_err bt st key True)) = Some v \<and>
            srch_upd (snd (wt_row_search codec pin_err bt st key True)) = Some (Upd_Slot slot)) \<and>
         (cmp \<noteq> 0 \<and> i = Some ia \<and> pos = chain_pos bt key (ia (leaf_miss_slot n base)) \<and>
          pos < length (ia (leaf_miss_slot n base)) \<and>
          btree_compare bt key (ins_key (ia (leaf_miss_slot n base) ! pos)) = 0 \<and>
          ins_upd (ia (leaf_miss_slot n base) ! pos) = Some v \<and> upd_deleted v \<longrightarrow>
            fst (wt_row_search codec pin_err bt st key False) = Some WT_NOTFOUND \<and>
            fst (wt_row_search codec pin_err bt st key True) = None \<and>
            srch_match (snd (wt_row_search codec pin_err bt st key True)) \<and>
            srch_vupdate (snd (wt_row_search codec pin_err bt st key True)) = Some v \<and>
            srch_upd (snd (wt_row_search codec pin_err bt st key True)) =
              Some (Ins_Upd (leaf_miss_slot n base) pos))"
proof -
  have A: "fst (wt_row_search codec pin_err bt st key False) = Some WT_NOTFOUND \<and>
            fst (wt_row_search codec pin_err bt st key True) = None \<and>
            srch_match (snd (wt_row_search codec pin_err bt st key True)) \<and>
            srch_vupdate (snd (wt_row_search codec pin_err bt st key True)) = Some v \<and>
            srch_upd (snd (wt_row_search codec pin_err bt st key True)) = Some (Upd_Slot slot)"
    if C: "cmp = 0" and rip: "rip = Some slot" and u: "u = Some ua" and v: "ua slot = Some v"
      and d: "upd_deleted v"
    unfolding wt_row_search_leaf [OF D] row_search_leaf_match [OF L [unfolded C rip]]
    using u v d
    by (simp add: search_done_write)
       (simp add: search_done_def search_notfound_def search_err_def WT_UPDATE_DELETED_ISSET_def)
  have B: "fst (wt_row_search codec pin_err bt st key False) = Some WT_NOTFOUND \<and>
            fst (wt_row_search codec pin_err bt st key True) = None \<and>
            srch_match (snd (wt_row_search codec pin_err bt st key True)) \<and>
            srch_vupdate (snd (wt_row_search codec pin_err bt st key True)) = Some v \<and>
            srch_upd (snd (wt_row_search codec pin_err bt st key True)) =
              Some (Ins_Upd (leaf_miss_slot n base) pos)"
    if C: "cmp \<noteq> 0" and i: "i = Some ia"
      and pos: "pos = chain_pos bt key (ia (leaf_miss_slot n base))"
      and len: "pos < length (ia (leaf_miss_slot n base))"
      and eq: "btree_compare bt key (ins_key (ia (leaf_miss_slot n base) ! pos)) = 0"
      and v: "ins_upd (ia (leaf_miss_slot n base) ! pos) = Some v" and d: "upd_deleted v"
    unfolding wt_row_search_leaf [OF D] row_search_leaf_miss [OF L C]
    using i pos [symmetric] len eq v d
    by (simp add: wt_ins_search_eq WT_ROW_INSERT_SLOT_def search_done_write)
       (simp add: search_done_def search_notfound_def search_err_def WT_UPDATE_DELETED_ISSET_def)
  from A B show ?thesis by blast
qed

theorem tombstone_visibility_witness:
  "fst (wt_row_search ex_codec ex_pin ex_bt ex_st [104] False) = Some WT_NOTFOUND \<and>
   fst (wt_row_search ex_codec ex_pin ex_bt ex_st [104] True) = None \<and>
   srch_upd (snd (wt_row_search ex_codec ex_pin ex_bt ex_st [104] True)) = Some (Upd_Slot 3) \<and>
   fst (wt_row_search ex_codec ex_pin ex_bt ex_st [100, 98] False) = Some WT_NOTFOUND \<and>
   fst (wt_row_search ex_codec ex_pin ex_bt ex_st [100, 98] True) = None \<and>
   srch_upd (snd (wt_row_search ex_codec ex_pin ex_bt ex_st [100, 98] True)) = Some (Ins_Upd 1 1)"
proof -
  let ?D = "\<lambda>key. descend ex_codec ex_pin ex_bt key 0 (clear_return_values ex_st) (root_page ex_bt)"
  let ?L = "\<lambda>key. row_leaf_loop ex_codec ex_bt key 2 (snd (?D key)) 0 4 (- 1) None"
  have D1: "?D [104] = (Inr (Row_Leaf 2 4 7 (Some ex_upd2) (Some ex_ins2), - 1), snd (?D [104]))"
    by (simp add: prod_eq_iff ex_defs key_build_defs search_defs)
  have D2: "?D [100, 98] =
      (Inr (Row_Leaf 2 4 7 (Some ex_upd2) (Some ex_ins2), - 1), snd (?D [100, 98]))"
    by (simp add: prod_eq_iff ex_defs key_build_defs search_defs)
  have "fst (?L [104]) = Inr (3, 0, Some 3)"
    by (simp add: ex_defs key_build_defs search_defs)
  then have L1: "?L [104] = (Inr (3, 0, Some 3), snd (?L [104]))"
    by (simp add: prod_eq_iff)
  have "fst (?L [100, 98]) = Inr (2, 1, Some 1)"
    by (simp add: ex_defs key_build_defs search_defs)
  then have L2: "?L [100, 98] = (Inr (2, 1, Some 1), snd (?L [100, 98]))"
    by (simp add: prod_eq_iff)
  from tombstone_visibility [OF D1 L1, of 3 ex_upd2 "\<lparr>upd_deleted = True, upd_data = []\<rparr>"]
  have A: "fst (wt_row_search ex_codec ex_pin ex_bt ex_st [104] False) = Some WT_NOTFOUND \<and>
   fst (wt_row_search ex_codec ex_pin ex_bt ex_st [104] True) = None \<and>
   srch_upd (snd (wt_row_search ex_codec ex_pin ex_bt ex_st [104] True)) = Some (Upd_Slot 3)"
    by (simp add: ex_upd2_def)
  from tombstone_visibility [OF D2 L2, of _ _ "\<lparr>upd_deleted = True, upd_data = []\<rparr>" ex_ins2 1]
  have B: "fst (wt_row_search ex_codec ex_pin ex_bt ex_st [100, 98] False) = Some WT_NOTFOUND \<and>
   fst (wt_row_search ex_codec ex_pin ex_bt ex_st [100, 98] True) = None \<and>
   srch_upd (snd (wt_row_search ex_codec ex_pin ex_bt ex_st [100, 98] True)) = Some (Ins_Upd 1 1)"
    by (simp add: ex_ins2_def ex_bt_def leaf_miss_slot_def chain_pos_def)
  from A B show ?thesis by blast
qed

subsection \<open>Errors of the collaborators\<close>

lemma srch_cleared_frame: "srch_cleared s \<Longrightarrow> srch_frame s s' \<Longrightarrow> srch_cleared s'"
  by (simp add: srch_cleared_def srch_frame_def)

lemma srch_cleared_clear: "srch_cleared (clear_return_values st)"
  by (simp add: srch_cleared_def clear_return_values_def)

lemma wt_key_build_error:
  "wt_key_build codec st k = (Some (Collab x), st') \<Longrightarrow> \<exists>off. codec (fst k) off = Inl x"
  by (auto simp: wt_key_build_def wt_cell_process_def wt_key_build_swap_def
        wt_key_build_serial_func_def Let_def
      split: if_splits ptr.splits sum.splits prod.splits)

lemma wt_key_instantiate_error:
  "wt_key_instantiate codec st k = (Some (Collab x), st') \<Longrightarrow> \<exists>off. codec (fst k) off = Inl x"
  by (auto simp: wt_key_instantiate_def dest: wt_key_build_error split: if_splits)

lemma row_leaf_loop_error:
  "row_leaf_loop codec bt key a st base limit cmp rip = (Inl (Collab x), st') \<Longrightarrow>
     \<exists>off. codec a off = Inl x"
proof (induction codec bt key a st base limit cmp rip arbitrary: st' rule: row_leaf_loop.induct)
  case (1 codec bt key a st base limit cmp rip)
  show ?case
  proof (cases "limit = 0")
    case True
    with "1.prems" show ?thesis by (simp add: row_leaf_loop.simps)
  next
    case False
    obtain e st1 where I: "wt_key_instantiate codec st (a, base + limit div 2) = (e, st1)"
      by fastforce
    from "1.prems" False I "1.IH" [OF False refl I [symmetric]]
      wt_key_instantiate_error [of codec st "(a, base + limit div 2)" x st1]
    show ?thesis
      by (auto simp: row_leaf_loop.simps [of codec bt key a st] Let_def
            split: option.splits if_splits)
  qed
qed

lemma row_int_loop_error:
  "row_int_loop codec bt key a st base limit cmp rref probes = (Inl (Collab x), st') \<Longrightarrow>
     \<exists>off. codec a off = Inl x"
proof (induction codec bt key a st base limit cmp rref probes arbitrary: st'
       rule: row_int_loop.induct)
  case (1 codec bt key a st base limit cmp rref probes)
  show ?case
  proof (cases "limit = 0")
    case True
    with "1.prems" show ?thesis by (simp add: row_int_loop.simps)
  next
    case False
    obtain e st1 where I: "wt_key_instantiate codec st (a, base + limit div 2) = (e, st1)"
      by fastforce
    from "1.prems" False I "1.IH" [OF False refl I [symmetric]]
      wt_key_instantiate_error [of codec st "(a, base + limit div 2)" x st1]
    show ?thesis
      by (auto simp: row_int_loop.simps [of codec bt key a st] Let_def
            split: option.splits if_splits)
  qed
qed

lemma wt_page_in_error: "wt_page_in pin_err st b = (Some (Collab x), st') \<Longrightarrow> pin_err b = Some x"
  by (auto simp: wt_page_in_def split: option.splits)

lemma descend_error:
  "descend codec pin_err bt key cmp st p = (Inl (Collab x, q), st') \<Longrightarrow>
     (\<exists>b. pin_err b = Some x) \<or> (\<exists>b off. codec b off = Inl x)"
proof (induction codec pin_err bt key cmp st p arbitrary: st' rule: descend.induct)
  case (1 codec pin_err bt key cmp st a n g u i)
  then show ?case by simp
next
  case (2 codec pin_err bt key cmp st a c cs)
  obtain y st1 where L: "row_int_loop codec bt key a st 0 (Suc (length cs)) cmp None [] = (y, st1)"
    by fastforce
  show ?case
  proof (cases y)
    case (Inl e)
    with "2.prems" L have "e = Collab x" by simp
    with L Inl row_int_loop_error [of codec bt key a st 0 "Suc (length cs)" cmp None "[]" x st1]
    show ?thesis by blast
  next
    case (Inr z)
    obtain base cmp1 rref probes where z: "z = (base, cmp1, rref, probes)"
      by (cases z) auto
    show ?thesis
    proof (cases "descent_ref base cmp1 rref")
      case None
      with "2.prems" L Inr z show ?thesis by simp
    next
      case (Some r0)
      show ?thesis
      proof (cases "r0 < Suc (length cs)")
        case False
        with "2.prems" L Inr z Some show ?thesis by simp
      next
        case True
        obtain e st2 where P: "wt_page_in pin_err st1 (paddr ((c # cs) ! r0)) = (e, st2)"
          by fastforce
        show ?thesis
        proof (cases e)
          case (Some e')
          with "2.prems" L Inr z \<open>descent_ref base cmp1 rref = Some r0\<close> True P
          have "e' = Collab x" by simp
          with P Some wt_page_in_error show ?thesis by blast
        next
          case None
          let ?st3 = "if a \<noteq> paddr (root_page bt) then wt_hazard_clear st2 a else st2"
          from "2.prems" L Inr z \<open>descent_ref base cmp1 rref = Some r0\<close> True P None
          have "descend codec pin_err bt key cmp1 ?st3 ((c # cs) ! r0) = (Inl (Collab x, q), st')"
            by simp
          from "2.IH" [OF L [symmetric] Inr z [symmetric] refl refl
              \<open>descent_ref base cmp1 rref = Some r0\<close> True P [symmetric] None this]
          show ?thesis .
        qed
      qed
    qed
  qed
qed

text \<open>
  C9. When the descent fails (a page cannot be pinned, or a key of an internal page cannot
  be decoded) or a key of the leaf cannot be decoded, the search returns that error, having
  released with \<open>WT_PAGE_OUT\<close> the pin of the page it held, and every return value is as
  cleared on entry. An error code of a collaborator is the one the page provider or the
  codec gave. The step that fails stops the search there: a child that cannot be pinned
  ends the descent at its parent, and a cell that cannot be decoded ends either binary
  search at that probe, the memory as it was.
\<close>

theorem search_error_no_partial_result:
  "(descend codec pin_err bt key 0 (clear_return_values st) (root_page bt) = (Inl (e, p), st1) \<longrightarrow>
      wt_row_search codec pin_err bt st key write = (Some e, WT_PAGE_OUT bt st1 p) \<and>
      srch_cleared (WT_PAGE_OUT bt st1 p) \<and>
      (\<forall>x. e = Collab x \<longrightarrow> (\<exists>b. pin_err b = Some x) \<or> (\<exists>b off. codec b off = Inl x))) \<and>
   (descend codec pin_err bt key 0 (clear_return_values st) (root_page bt) =
      (Inr (Row_Leaf a n g u i, c), st1) \<and>
    row_leaf_loop codec bt key a st1 0 n c None = (Inl e, st2) \<longrightarrow>
      wt_row_search codec pin_err bt st key write =
        (Some e, WT_PAGE_OUT bt st2 (Row_Leaf a n g u i)) \<and>
      srch_cleared (WT_PAGE_OUT bt st2 (Row_Leaf a n g u i)) \<and>
      (\<forall>x. e = Collab x \<longrightarrow> (\<exists>off. codec a off = Inl x))) \<and>
   (row_int_loop codec bt key pa st 0 (Suc (length chs)) cmp None [] =
      (Inr (base, cmp1, rref, probes), st3) \<and>
    descent_ref base cmp1 rref = Some r \<and> r < Suc (length chs) \<and>
    pin_err (paddr ((ch0 # chs) ! r)) = Some x \<longrightarrow>
      descend codec pin_err bt key cmp st (Row_Int pa ch0 chs) =
        (Inl (Collab x, Row_Int pa ch0 chs), st3)) \<and>
   (limit \<noteq> 0 \<and> rows st (pa, lo + limit div 2) = \<lparr>row_key = Disk off, row_size = 0\<rparr> \<and>
    codec pa off = Inl x \<longrightarrow>
      row_leaf_loop codec bt key pa st lo limit cmp rip = (Inl (Collab x), st) \<and>
      row_int_loop codec bt key pa st lo limit cmp rip probes = (Inl (Collab x), st))"
proof -
  have C: "descend codec pin_err bt key cmp st (Row_Int pa ch0 chs) =
        (Inl (Collab x, Row_Int pa ch0 chs), st3)"
    if "row_int_loop codec bt key pa st 0 (Suc (length chs)) cmp None [] =
          (Inr (base, cmp1, rref, probes), st3)"
      and "descent_ref base cmp1 rref = Some r" and "r < Suc (length chs)"
      and "pin_err (paddr ((ch0 # chs) ! r)) = Some x"
    using that by (simp add: wt_page_in_def)
  have I: "wt_key_instantiate codec st (pa, lo + limit div 2) = (Some (Collab x), st)"
    if "rows st (pa, lo + limit div 2) = \<lparr>row_key = Disk off, row_size = 0\<rparr>"
      and "codec pa off = Inl x"
    using that
    by (simp add: wt_key_instantiate_def wt_key_process_def wt_key_build_def
          wt_cell_process_def)
  have E: "row_leaf_loop codec bt key pa st lo limit cmp rip = (Inl (Collab x), st) \<and>
      row_int_loop codec bt key pa st lo limit cmp rip probes = (Inl (Collab x), st)"
    if "limit \<noteq> 0"
      and "rows st (pa, lo + limit div 2) = \<lparr>row_key = Disk off, row_size = 0\<rparr>"
      and "codec pa off = Inl x"
    using that(1) I [OF that(2,3)]
    by (simp add: row_leaf_loop.simps [of codec bt key pa st]
          row_int_loop.simps [of codec bt key pa st] Let_def)
  have A: "wt_row_search codec pin_err bt st key write = (Some e, WT_PAGE_OUT bt st1 p) \<and>
      srch_cleared (WT_PAGE_OUT bt st1 p) \<and>
      (\<forall>x. e = Collab x \<longrightarrow> (\<exists>b. pin_err b = Some x) \<or> (\<exists>b off. codec b off = Inl x))"
    if D: "descend codec pin_err bt key 0 (clear_return_values st) (root_page bt) =
             (Inl (e, p), st1)"
  proof -
    have "srch_cleared st1"
      using srch_cleared_clear descend_srch_frame [OF D] by (rule srch_cleared_frame)
    then have "srch_cleared (WT_PAGE_OUT bt st1 p)"
      using WT_PAGE_OUT_srch_frame by (rule srch_cleared_frame)
    moreover have "wt_row_search codec pin_err bt st key write = (Some e, WT_PAGE_OUT bt st1 p)"
      using D by (simp add: wt_row_search_def search_err_def)
    moreover have "(\<exists>b. pin_err b = Some x) \<or> (\<exists>b off. codec b off = Inl x)"
      if "e = Collab x" for x
      using D that descend_error by blast
    ultimately show ?thesis by blast
  qed
  have B: "wt_row_search codec pin_err bt st key write =
        (Some e, WT_PAGE_OUT bt st2 (Row_Leaf a n g u i)) \<and>
      srch_cleared (WT_PAGE_OUT bt st2 (Row_Leaf a n g u i)) \<and>
      (\<forall>x. e = Collab x \<longrightarrow> (\<exists>off. codec a off = Inl x))"
    if D: "descend codec pin_err bt key 0 (clear_return_values st) (root_page bt) =
             (Inr (Row_Leaf a n g u i, c), st1)"
      and L: "row_leaf_loop codec bt key a st1 0 n c None = (Inl e, st2)"
  proof -
    have "srch_cleared st2"
      using srch_cleared_clear srch_ins_at_leaf [OF D L] by (rule srch_cleared_frame)
    then have "srch_cleared (WT_PAGE_OUT bt st2 (Row_Leaf a n g u i))"
      using WT_PAGE_OUT_srch_frame by (rule srch_cleared_frame)
    moreover have "wt_row_search codec pin_err bt st key write =
        (Some e, WT_PAGE_OUT bt st2 (Row_Leaf a n g u i))"
      unfolding wt_row_search_leaf [OF D] using L
      by (simp add: row_search_leaf_def search_err_def)
    moreover have "\<exists>off. codec a off = Inl x" if "e = Collab x" for x
      using L that row_leaf_loop_error by blast
    ultimately show ?thesis by blast
  qed
  from A B C E show ?thesis by blast
qed

theorem search_error_no_partial_result_witness:
  "wt_row_search ex_codec ex_pin_fail ex_bt ex_st [101] False =
     (Some (Collab 7), WT_PAGE_OUT ex_bt (clear_return_values ex_st) ex_root) \<and>
   srch_cleared (WT_PAGE_OUT ex_bt (clear_return_values ex_st) ex_root) \<and>
   fst (wt_row_search ex_codec ex_pin ex_bt ex_st_cell [99] True) = Some (Collab 5) \<and>
   srch_cleared (snd (wt_row_search ex_codec ex_pin ex_bt ex_st_cell [99] True)) \<and>
   hazard (snd (wt_row_search ex_codec ex_pin ex_bt ex_st_cell [99] True)) = [1]"
proof -
  let ?D1 = "descend ex_codec ex_pin_fail ex_bt [101] 0 (clear_return_values ex_st) (root_page ex_bt)"
  let ?D2 = "descend ex_codec ex_pin ex_bt [99] 0 (clear_return_values ex_st_cell) (root_page ex_bt)"
  let ?L2 = "row_leaf_loop ex_codec ex_bt [99] 2 (snd ?D2) 0 4 (- 1) None"
  have D1: "?D1 = (Inl (Collab 7, ex_root), clear_return_values ex_st)"
    by (simp add: ex_defs ex_pin_fail_def key_build_defs search_defs)
  have D2: "?D2 = (Inr (Row_Leaf 2 4 7 (Some ex_upd2) (Some ex_ins2), - 1), snd ?D2)"
    by (simp add: prod_eq_iff ex_defs ex_st_cell_def key_build_defs search_defs)
  have "fst ?L2 = Inl (Collab 5)"
    by (simp add: ex_defs ex_st_cell_def key_build_defs search_defs)
  then have L2: "?L2 = (Inl (Collab 5), snd ?L2)"
    by (simp add: prod_eq_iff)
  have H: "hazard (WT_PAGE_OUT ex_bt (snd ?L2) (Row_Leaf 2 4 7 (Some ex_upd2) (Some ex_ins2))) = [1]"
    by (simp add: ex_defs ex_st_cell_def key_build_defs search_defs)
  from search_error_no_partial_result [THEN conjunct1, THEN mp, OF D1, of False]
  have A: "wt_row_search ex_codec ex_pin_fail ex_bt ex_st [101] False =
     (Some (Collab 7), WT_PAGE_OUT ex_bt (clear_return_values ex_st) ex_root) \<and>
   srch_cleared (WT_PAGE_OUT ex_bt (clear_return_values ex_st) ex_root)"
    by blast
  from search_error_no_partial_result [THEN conjunct2, THEN conjunct1, THEN mp,
      OF conjI [OF D2 L2], of True] H
  have B: "fst (wt_row_search ex_codec ex_pin ex_bt ex_st_cell [99] True) = Some (Collab 5) \<and>
   srch_cleared (snd (wt_row_search ex_codec ex_pin ex_bt ex_st_cell [99] True)) \<and>
   hazard (snd (wt_row_search ex_codec ex_pin ex_bt ex_st_cell [99] True)) = [1]"
    by simp
  from A B show ?thesis by blast
qed

subsection \<open>The comparator\<close>

lemma comparator_sym: "comparator_ok cmp \<Longrightarrow> (cmp a b < 0) = (0 < cmp b a)"
  by (simp add: comparator_ok_def)

lemma comparator_eq_sym: "comparator_ok cmp \<Longrightarrow> cmp a b = 0 \<Longrightarrow> cmp b a = 0"
  using comparator_sym [of cmp a b] comparator_sym [of cmp b a] by linarith

lemma comparator_le_trans:
  "comparator_ok cmp \<Longrightarrow> cmp a b \<le> 0 \<Longrightarrow> cmp b c \<le> 0 \<Longrightarrow> cmp a c \<le> 0"
  unfolding comparator_ok_def by blast

lemma comparator_lt_le_trans:
  assumes O: "comparator_ok cmp" and ab: "cmp a b < 0" and bc: "cmp b c \<le> 0"
  shows "cmp a c < 0"
proof (rule ccontr)
  assume "\<not> cmp a c < 0"
  moreover have "cmp a c \<le> 0" using comparator_le_trans [OF O _ bc] ab by simp
  ultimately have "cmp a c = 0" by simp
  then have "cmp c a = 0" by (rule comparator_eq_sym [OF O])
  with bc have "cmp b a \<le> 0" using comparator_le_trans [OF O, of b c a] by simp
  moreover from ab have "0 < cmp b a" using comparator_sym [OF O] by simp
  ultimately show False by simp
qed

lemma comparator_le_lt_trans:
  assumes O: "comparator_ok cmp" and ab: "cmp a b \<le> 0" and bc: "cmp b c < 0"
  shows "cmp a c < 0"
proof (rule ccontr)
  assume "\<not> cmp a c < 0"
  moreover have "cmp a c \<le> 0" using comparator_le_trans [OF O ab] bc by simp
  ultimately have "cmp a c = 0" by simp
  then have "cmp c a = 0" by (rule comparator_eq_sym [OF O])
  with ab have "cmp c b \<le> 0" using comparator_le_trans [OF O, of c a b] by simp
  moreover from bc have "0 < cmp c b" using comparator_sym [OF O] by simp
  ultimately show False by simp
qed

lemma lex_compare_sym: "(lex_compare a b < 0) = (0 < lex_compare b a)"
  by (induction a b rule: lex_compare.induct) auto

lemma lex_compare_le_trans:
  "lex_compare a b \<le> 0 \<Longrightarrow> lex_compare b c \<le> 0 \<Longrightarrow> lex_compare a c \<le> 0"
proof (induction a arbitrary: b c)
  case Nil
  then show ?case by (cases c) auto
next
  case (Cons x xs)
  then show ?case
    by (cases b; cases c) (auto split: if_splits)
qed

lemma comparator_ok_lex: "comparator_ok lex_compare"
  unfolding comparator_ok_def using lex_compare_sym lex_compare_le_trans by blast

subsection \<open>The insertion point\<close>

lemma chain_pos_le: "chain_pos bt key ch \<le> length ch"
  by (simp add: chain_pos_def length_takeWhile_le)

lemma chain_pos_before:
  "j < chain_pos bt key ch \<Longrightarrow> 0 < btree_compare bt key (ins_key (ch ! j))"
  unfolding chain_pos_def
  by (metis (mono_tags, lifting) nth_mem set_takeWhileD takeWhile_nth)

lemma chain_pos_at:
  "chain_pos bt key ch < length ch \<Longrightarrow>
     \<not> 0 < btree_compare bt key (ins_key (ch ! chain_pos bt key ch))"
  unfolding chain_pos_def by (rule nth_length_takeWhile)

lemma ins_splice_link:
  "ins_splice (if pos = 0 then Ins_Head s else Ins_Next s (pos - 1)) new ch =
     take pos ch @ new # drop pos ch"
  by (cases pos) simp_all

lemma splice_sorted:
  assumes O: "comparator_ok (btree_compare bt)"
    and S: "chain_sorted bt ch"
    and miss: "chain_pos bt key ch = length ch \<or>
               btree_compare bt key (ins_key (ch ! chain_pos bt key ch)) < 0"
  shows "chain_sorted bt
           (take (chain_pos bt key ch) ch @ \<lparr>ins_key = key, ins_upd = v\<rparr> #
            drop (chain_pos bt key ch) ch)"
proof -
  let ?P = "\<lambda>x y. btree_compare bt (ins_key x) (ins_key y) < 0"
  let ?pos = "chain_pos bt key ch"
  let ?new = "\<lparr>ins_key = key, ins_upd = v\<rparr>"
  have S': "sorted_wrt ?P ch" using S by (simp add: chain_sorted_def)
  have le: "?pos \<le> length ch" by (rule chain_pos_le)
  have a: "sorted_wrt ?P (take ?pos ch)" "sorted_wrt ?P (drop ?pos ch)"
    using S' by (simp_all add: sorted_wrt_take sorted_wrt_drop)
  have b: "?P x ?new" if "x \<in> set (take ?pos ch)" for x
  proof -
    from that obtain j where j: "j < ?pos" "x = ch ! j"
      by (auto simp: in_set_conv_nth)
    from chain_pos_before [OF j(1)] j(2) show ?thesis
      using comparator_sym [OF O, of "ins_key x" key] by simp
  qed
  have c: "?P ?new y" if "y \<in> set (drop ?pos ch)" for y
  proof -
    from that obtain k where "k < length (drop ?pos ch)" "drop ?pos ch ! k = y"
      by (meson in_set_conv_nth)
    with le have k: "?pos + k < length ch" "y = ch ! (?pos + k)"
      by (auto simp: nth_drop)
    with miss have lt: "btree_compare bt key (ins_key (ch ! ?pos)) < 0" by auto
    show ?thesis
    proof (cases k)
      case 0
      with lt k show ?thesis by simp
    next
      case (Suc k')
      with k have "?P (ch ! ?pos) y"
        using sorted_wrt_nth_less [OF S', of ?pos "?pos + k"] by simp
      with lt show ?thesis
        using comparator_lt_le_trans [OF O, of key "ins_key (ch ! ?pos)" "ins_key y"] by simp
    qed
  qed
  have d: "?P x y" if "x \<in> set (take ?pos ch)" "y \<in> set (drop ?pos ch)" for x y
  proof -
    from that(1) obtain j where j: "j < ?pos" "x = ch ! j"
      by (auto simp: in_set_conv_nth)
    from that(2) obtain k where "k < length (drop ?pos ch)" "drop ?pos ch ! k = y"
      by (meson in_set_conv_nth)
    with le have k: "?pos + k < length ch" "y = ch ! (?pos + k)"
      by (auto simp: nth_drop)
    from j k show ?thesis
      using sorted_wrt_nth_less [OF S', of j "?pos + k"] by simp
  qed
  show ?thesis
    unfolding chain_sorted_def sorted_wrt_append
    using a b c d by auto
qed

lemma search_done_fields:
  "srch_ins (snd (search_done bt w p wg cmp rip st)) = srch_ins st \<and>
   srch_upd (snd (search_done bt w p wg cmp rip st)) = srch_upd st \<and>
   srch_vupdate (snd (search_done bt w p wg cmp rip st)) = srch_vupdate st"
  by (auto simp: search_done_def search_err_def search_notfound_def WT_PAGE_OUT_def
        wt_hazard_clear_def split: page.splits option.splits)

lemma search_notfound_fields:
  "srch_ins (snd (search_notfound bt p st)) = srch_ins st \<and>
   srch_upd (snd (search_notfound bt p st)) = srch_upd st \<and>
   srch_vupdate (snd (search_notfound bt p st)) = srch_vupdate st"
  by (simp add: search_err_def search_notfound_def WT_PAGE_OUT_def wt_hazard_clear_def)

lemma leaf_miss_result:
  assumes D: "descend codec pin_err bt key 0 (clear_return_values st) (root_page bt) =
                (Inr (Row_Leaf a n g u i, c), st1)"
    and L: "row_leaf_loop codec bt key a st1 0 n c None = (Inr (base, cmp, rip), st2)"
    and C: "cmp \<noteq> 0"
  shows "wt_row_search codec pin_err bt st key w =
     (case wt_ins_search bt
             (if i \<noteq> None
              then st2\<lparr>srch_slot := leaf_miss_slot n base,
                       srch_ins := Some (Ins_Head (leaf_miss_slot n base))\<rparr>
              else st2\<lparr>srch_slot := leaf_miss_slot n base\<rparr>)
             (leaf_miss_slot n base) 0
             (case i of None \<Rightarrow> [] | Some ia \<Rightarrow> ia (leaf_miss_slot n base)) key of
        (cmp', st4) \<Rightarrow>
          if cmp' \<noteq> 0 \<and> \<not> w then search_notfound bt (Row_Leaf a n g u i) st4
          else search_done bt w (Row_Leaf a n g u i) g cmp' (Some (base - 1)) st4)"
  unfolding wt_row_search_leaf [OF D] row_search_leaf_miss [OF L C]
  by (simp add: WT_ROW_INSERT_SLOT_def)

text \<open>
  C3, as the code has it. On a leaf miss the chain searched is \<open>ins[indx_count]\<close>, the
  chain of the keys smaller than any on the page, when \<open>base\<close> is 0, and the chain of the
  bracketing slot \<open>base - 1\<close> otherwise; it is the empty chain when the page has no
  insert array. With \<open>pos\<close> the number of nodes at its head that sort before the key: if
  node \<open>pos\<close> compares equal, the first node that does, the search reports the match with
  the reference to that node's update and no insertion point, and returns 0 with
  \<open>srch_match\<close> set (\<open>WT_NOTFOUND\<close>, \<open>srch_match\<close> clear, for a deleted update
  without \<open>WT_WRITE\<close>); otherwise node \<open>pos\<close> is the first that sorts after the key, or
  the chain ends there, the search returns 0 with \<open>WT_WRITE\<close> and \<open>WT_NOTFOUND\<close>
  without, \<open>srch_match\<close> clear, and on a page with an insert array the insertion point is
  the link before that node (\<open>&ins[slot]\<close> for \<open>pos = 0\<close>, the \<open>next\<close> of node
  \<open>pos - 1\<close> otherwise), where a node with the searched key spliced in leaves the chain
  sorted. On a page without an insert array no insertion point is reported.
\<close>

theorem insert_chain_search:
  fixes w :: bool
  assumes O: "comparator_ok (btree_compare bt)"
    and D: "descend codec pin_err bt key 0 (clear_return_values st) (root_page bt) =
                (Inr (Row_Leaf a n g u i, c), st1)"
    and L: "row_leaf_loop codec bt key a st1 0 n c None = (Inr (base, cmp, rip), st2)"
    and C: "cmp \<noteq> 0"
    and S: "chain_sorted bt
              (case i of None \<Rightarrow> [] | Some ia \<Rightarrow> ia (if base = 0 then n else base - 1))"
  defines "slot \<equiv> (if base = 0 then n else base - 1)"
  defines "ch \<equiv> (case i of None \<Rightarrow> [] | Some ia \<Rightarrow> ia slot)"
  defines "pos \<equiv> chain_pos bt key ch"
  defines "link \<equiv> (if pos = 0 then Ins_Head slot else Ins_Next slot (pos - 1))"
  defines "res \<equiv> wt_row_search codec pin_err bt st key w"
  shows "(\<forall>j<pos. 0 < btree_compare bt key (ins_key (ch ! j))) \<and>
         (pos < length ch \<and> btree_compare bt key (ins_key (ch ! pos)) = 0 \<longrightarrow>
            srch_upd (snd res) = Some (Ins_Upd slot pos) \<and>
            srch_vupdate (snd res) = ins_upd (ch ! pos) \<and>
            srch_ins (snd res) = None \<and>
            fst res =
              (if \<not> w \<and> (case ins_upd (ch ! pos) of None \<Rightarrow> False | Some d \<Rightarrow> upd_deleted d)
               then Some WT_NOTFOUND else None) \<and>
            srch_match (snd res) = (fst res = None)) \<and>
         (\<not> (pos < length ch \<and> btree_compare bt key (ins_key (ch ! pos)) = 0) \<longrightarrow>
            (pos = length ch \<or> btree_compare bt key (ins_key (ch ! pos)) < 0) \<and>
            srch_ins (snd res) = (if i = None then None else Some link) \<and>
            srch_upd (snd res) = None \<and>
            fst res = (if w then None else Some WT_NOTFOUND) \<and>
            \<not> srch_match (snd res) \<and>
            chain_sorted bt (ins_splice link \<lparr>ins_key = key, ins_upd = v\<rparr> ch))"
proof -
  let ?p = "Row_Leaf a n g u i"
  let ?st3 = "if i \<noteq> None then st2\<lparr>srch_slot := slot, srch_ins := Some (Ins_Head slot)\<rparr>
              else st2\<lparr>srch_slot := slot\<rparr>"
  have sl: "leaf_miss_slot n base = slot" by (simp add: slot_def leaf_miss_slot_def)
  have F: "srch_ins st2 = None" "srch_upd st2 = None" "\<not> srch_match st2"
    using srch_ins_at_leaf [OF D L] by (simp_all add: srch_frame_def clear_return_values_def)
  have R: "res = (case wt_ins_search bt ?st3 slot 0 ch key of
        (cmp', st4) \<Rightarrow>
          if cmp' \<noteq> 0 \<and> \<not> w then search_notfound bt ?p st4
          else search_done bt w ?p g cmp' (Some (base - 1)) st4)"
    unfolding res_def leaf_miss_result [OF D L C] sl ch_def ..
  have before: "\<forall>j<pos. 0 < btree_compare bt key (ins_key (ch ! j))"
    using chain_pos_before by (simp add: pos_def)
  have hit: "srch_upd (snd res) = Some (Ins_Upd slot pos) \<and>
            srch_vupdate (snd res) = ins_upd (ch ! pos) \<and>
            srch_ins (snd res) = None \<and>
            fst res =
              (if \<not> w \<and> (case ins_upd (ch ! pos) of None \<Rightarrow> False | Some d \<Rightarrow> upd_deleted d)
               then Some WT_NOTFOUND else None) \<and>
            srch_match (snd res) = (fst res = None)"
    if H: "pos < length ch" "btree_compare bt key (ins_key (ch ! pos)) = 0"
  proof -
    from H(1) obtain ia where i: "i = Some ia" and ch: "ch = ia slot"
      by (cases i) (simp_all add: ch_def)
    have E: "wt_ins_search bt ?st3 slot 0 ch key =
            (0, ?st3\<lparr>srch_ins := None, srch_vupdate := ins_upd (ch ! pos),
                     srch_upd := Some (Ins_Upd slot pos)\<rparr>)"
      using H unfolding wt_ins_search_eq pos_def Let_def by simp
    show ?thesis
      unfolding R E using i ch H(1) F
      by (cases w)
         (auto simp: search_done_def search_notfound_def search_err_def WT_PAGE_OUT_def
            wt_hazard_clear_def WT_UPDATE_DELETED_ISSET_def split: option.splits)
  qed
  have miss: "(pos = length ch \<or> btree_compare bt key (ins_key (ch ! pos)) < 0) \<and>
            srch_ins (snd res) = (if i = None then None else Some link) \<and>
            srch_upd (snd res) = None \<and>
            fst res = (if w then None else Some WT_NOTFOUND) \<and>
            \<not> srch_match (snd res) \<and>
            chain_sorted bt (ins_splice link \<lparr>ins_key = key, ins_upd = v\<rparr> ch)"
    if N: "\<not> (pos < length ch \<and> btree_compare bt key (ins_key (ch ! pos)) = 0)"
  proof -
    have m: "pos = length ch \<or> btree_compare bt key (ins_key (ch ! pos)) < 0"
      using N chain_pos_le [of bt key ch] chain_pos_at [of bt key ch]
      by (fastforce simp: pos_def)
    have p0: "pos = 0" if "i = None"
      using that by (simp add: pos_def ch_def chain_pos_Nil)
    have E: "wt_ins_search bt ?st3 slot 0 ch key =
            (1, if pos = 0 then ?st3 else ?st3\<lparr>srch_ins := Some (Ins_Next slot (0 + pos - 1))\<rparr>)"
      using N unfolding wt_ins_search_eq pos_def Let_def by simp
    have fields: "srch_ins (snd res) = (if i = None then None else Some link) \<and>
            srch_upd (snd res) = None \<and>
            fst res = (if w then None else Some WT_NOTFOUND) \<and>
            \<not> srch_match (snd res)"
      unfolding R E using F p0
      by (cases w)
         (auto simp: search_done_write search_notfound_def search_err_def WT_PAGE_OUT_def
            wt_hazard_clear_def link_def)
    have "chain_sorted bt (ins_splice link \<lparr>ins_key = key, ins_upd = v\<rparr> ch)"
      unfolding link_def ins_splice_link
      using splice_sorted [OF O S [folded slot_def, folded ch_def]] m
      by (simp add: pos_def)
    with fields m show ?thesis by blast
  qed
  from before hit miss show ?thesis by blast
qed

theorem insert_chain_search_witness:
  "srch_ins (snd (wt_row_search ex_codec ex_pin ex_bt ex_st [101] True)) = Some (Ins_Next 1 1) \<and>
   chain_sorted ex_bt (ins_splice (Ins_Next 1 1) \<lparr>ins_key = [101], ins_upd = None\<rparr> (ex_ins2 1)) \<and>
   srch_upd (snd (wt_row_search ex_codec ex_pin ex_bt ex_st [100, 97] False)) = Some (Ins_Upd 1 0) \<and>
   fst (wt_row_search ex_codec ex_pin ex_bt ex_st [100, 97] False) = None \<and>
   srch_match (snd (wt_row_search ex_codec ex_pin ex_bt ex_st [100, 97] False)) \<and>
   fst (wt_row_search ex_codec ex_pin ex_bt ex_st [110] True) = None \<and>
   srch_ins (snd (wt_row_search ex_codec ex_pin ex_bt ex_st [110] True)) = None"
proof -
  let ?D = "\<lambda>key. descend ex_codec ex_pin ex_bt key 0 (clear_return_values ex_st) (root_page ex_bt)"
  let ?L = "\<lambda>key. row_leaf_loop ex_codec ex_bt key 2 (snd (?D key)) 0 4 (- 1) None"
  let ?L3 = "row_leaf_loop ex_codec ex_bt [110] 3 (snd (?D [110])) 0 2 1 None"
  have O: "comparator_ok (btree_compare ex_bt)"
    by (simp add: ex_bt_def comparator_ok_lex)
  have S: "chain_sorted ex_bt
             (case Some ex_ins2 of None \<Rightarrow> []
              | Some ia \<Rightarrow> ia (if (2::nat) = 0 then 4 else 2 - 1))"
    by (simp add: chain_sorted_def ex_ins2_def ex_bt_def)
  have S3: "chain_sorted ex_bt
             (case None of None \<Rightarrow> []
              | Some ia \<Rightarrow> ia (if (1::nat) = 0 then 2 else 1 - 1))"
    by (simp add: chain_sorted_def)
  have D1: "?D [101] = (Inr (Row_Leaf 2 4 7 (Some ex_upd2) (Some ex_ins2), - 1), snd (?D [101]))"
    by (simp add: prod_eq_iff ex_defs key_build_defs search_defs)
  have D2: "?D [100, 97] =
      (Inr (Row_Leaf 2 4 7 (Some ex_upd2) (Some ex_ins2), - 1), snd (?D [100, 97]))"
    by (simp add: prod_eq_iff ex_defs key_build_defs search_defs)
  have D3: "?D [110] = (Inr (Row_Leaf 3 2 0 None None, 1), snd (?D [110]))"
    by (simp add: prod_eq_iff ex_defs key_build_defs search_defs)
  have "fst (?L [101]) = Inr (2, 1, Some 1)"
    by (simp add: ex_defs key_build_defs search_defs)
  then have L1: "?L [101] = (Inr (2, 1, Some 1), snd (?L [101]))"
    by (simp add: prod_eq_iff)
  have "fst (?L [100, 97]) = Inr (2, 1, Some 1)"
    by (simp add: ex_defs key_build_defs search_defs)
  then have L2: "?L [100, 97] = (Inr (2, 1, Some 1), snd (?L [100, 97]))"
    by (simp add: prod_eq_iff)
  have "fst ?L3 = Inr (1, 1, Some 0)"
    by (simp add: ex_defs key_build_defs search_defs)
  then have L3: "?L3 = (Inr (1, 1, Some 0), snd ?L3)"
    by (simp add: prod_eq_iff)
  from insert_chain_search [OF O D1 L1 _ S, of True None]
  have A: "srch_ins (snd (wt_row_search ex_codec ex_pin ex_bt ex_st [101] True)) =
             Some (Ins_Next 1 1) \<and>
           chain_sorted ex_bt
             (ins_splice (Ins_Next 1 1) \<lparr>ins_key = [101], ins_upd = None\<rparr> (ex_ins2 1))"
    by (simp add: chain_pos_def ex_ins2_def ex_bt_def)
  from insert_chain_search [OF O D2 L2 _ S, of False None]
  have B: "srch_upd (snd (wt_row_search ex_codec ex_pin ex_bt ex_st [100, 97] False)) =
             Some (Ins_Upd 1 0) \<and>
           fst (wt_row_search ex_codec ex_pin ex_bt ex_st [100, 97] False) = None \<and>
           srch_match (snd (wt_row_search ex_codec ex_pin ex_bt ex_st [100, 97] False))"
    by (simp add: chain_pos_def ex_ins2_def ex_bt_def)
  from insert_chain_search [OF O D3 L3 _ S3, of True None]
  have C: "fst (wt_row_search ex_codec ex_pin ex_bt ex_st [110] True) = None \<and>
           srch_ins (snd (wt_row_search ex_codec ex_pin ex_bt ex_st [110] True)) = None"
    by (simp add: chain_pos_def)
  from A B C show ?thesis by blast
qed

text \<open>
  C3 as stated fails on a page without an insert array: the search for \<open>n\<close> with
  \<open>WT_WRITE\<close> misses on the leaf at address 3 (\<open>m, p\<close>), records slot 0 and returns 0,
  and reports no insertion point.
\<close>

theorem no_insert_array_no_insertion_point:
  "fst (wt_row_search ex_codec ex_pin ex_bt ex_st [110] True) = None \<and>
   \<not> srch_match (snd (wt_row_search ex_codec ex_pin ex_bt ex_st [110] True)) \<and>
   srch_page (snd (wt_row_search ex_codec ex_pin ex_bt ex_st [110] True)) = Some 3 \<and>
   srch_slot (snd (wt_row_search ex_codec ex_pin ex_bt ex_st [110] True)) = 0 \<and>
   srch_ins (snd (wt_row_search ex_codec ex_pin ex_bt ex_st [110] True)) = None"
  by (simp add: ex_defs key_build_defs search_defs)

subsection \<open>Keys built during a search\<close>

lemma wt_key_instantiate_ok:
  assumes P: "page_keys codec st a n K" and i: "i < n"
  shows "\<exists>st'. wt_key_instantiate codec st (a, i) = (None, st') \<and>
           wt_item st' a (rows st' (a, i)) = Some (K i) \<and> page_keys codec st' a n K"
proof -
  from P i have k: "slot_key codec st a i = Some (K i)" and h: "heap_ptr_ok st a i"
    by (simp_all add: page_keys_def)
  show ?thesis
  proof (cases "row_size (rows st (a, i)) = 0")
    case False
    with k P show ?thesis
      by (simp add: wt_key_instantiate_def wt_key_process_def slot_key_def)
  next
    case True
    show ?thesis
    proof (cases "row_key (rows st (a, i))")
      case (Heap h')
      with True k P show ?thesis
        by (simp add: wt_key_instantiate_def wt_key_process_def wt_key_build_def slot_key_def)
    next
      case (Disk off)
      with True k obtain b where b: "codec a off = Inr b" "K i = b"
        by (auto simp: slot_key_def split: sum.splits)
      let ?st' = "st\<lparr>heap := (heap st)(brk st := Some b), brk := Suc (brk st),
                     rows := (rows st)((a, i) := (rows st (a, i))\<lparr>row_key := Heap (brk st),
                       row_size := length b\<rparr>)\<rparr>"
      have E: "wt_key_instantiate codec st (a, i) = (None, ?st')"
        using True Disk b
        by (simp add: wt_key_instantiate_def wt_key_process_def wt_key_build_def
              wt_cell_process_def wt_key_build_swap_def wt_key_build_serial_func_def
              serial_stores_def store_key_def store_size_def)
      have I: "wt_item ?st' a (rows ?st' (a, i)) = Some (K i)"
        using b by (simp add: wt_item_def)
      have "page_keys codec ?st' a n K"
        unfolding page_keys_def
      proof (intro allI impI)
        fix j assume j: "j < n"
        from P j have kj: "slot_key codec st a j = Some (K j)" and hj: "heap_ptr_ok st a j"
          by (simp_all add: page_keys_def)
        show "slot_key codec ?st' a j = Some (K j) \<and> heap_ptr_ok ?st' a j"
        proof (cases "j = i")
          case True
          with I b show ?thesis
            by (auto simp: slot_key_def heap_ptr_ok_def wt_item_def Let_def)
        next
          case False
          with kj hj show ?thesis
            by (auto simp: slot_key_def heap_ptr_ok_def wt_item_def Let_def
                split: ptr.splits option.splits if_splits sum.splits)
        qed
      qed
      with E I show ?thesis by blast
    qed
  qed
qed

subsection \<open>The binary search of a leaf page\<close>

lemma probe_mono:
  assumes "comparator_ok (btree_compare bt)" "keys_sorted bt m n K"
    and "m \<le> i" "i < j" "j < n" "btree_compare bt key (K i) \<le> 0"
  shows "btree_compare bt key (K j) < 0"
  using assms comparator_le_lt_trans [of "btree_compare bt" key "K i" "K j"]
  by (simp add: keys_sorted_def)

lemma row_leaf_loop_step:
  assumes "limit \<noteq> 0"
    and "wt_key_instantiate codec st (a, base + limit div 2) = (None, st1)"
    and "wt_item st1 a (rows st1 (a, base + limit div 2)) = Some item"
  shows "row_leaf_loop codec bt key a st base limit cmp rip =
     (if btree_compare bt key item = 0
      then (Inr (base, 0, Some (base + limit div 2)), st1)
      else if btree_compare bt key item < 0
      then row_leaf_loop codec bt key a st1 base (limit div 2) (btree_compare bt key item)
             (Some (base + limit div 2))
      else row_leaf_loop codec bt key a st1 (base + limit div 2 + 1) ((limit - 1) div 2)
             (btree_compare bt key item) (Some (base + limit div 2)))"
  using assms by (simp add: row_leaf_loop.simps [of codec bt key a st] Let_def)

lemma row_leaf_loop_inv:
  assumes O: "comparator_ok (btree_compare bt)" and S: "keys_sorted bt 0 n K"
  shows "page_keys codec st a n K \<Longrightarrow> base + limit \<le> n \<Longrightarrow>
     (\<forall>i<base. 0 < btree_compare bt key (K i)) \<Longrightarrow>
     (\<forall>i. base + limit \<le> i \<and> i < n \<longrightarrow> btree_compare bt key (K i) < 0) \<Longrightarrow>
     (limit = 0 \<longrightarrow> cmp \<noteq> 0) \<Longrightarrow>
     \<exists>base' cmp' rip' st'.
        row_leaf_loop codec bt key a st base limit cmp rip = (Inr (base', cmp', rip'), st') \<and>
        page_keys codec st' a n K \<and>
        ((cmp' = 0 \<and> (\<exists>i<n. rip' = Some i \<and> btree_compare bt key (K i) = 0)) \<or>
         (cmp' \<noteq> 0 \<and> base' \<le> n \<and> (\<forall>i<base'. 0 < btree_compare bt key (K i)) \<and>
          (\<forall>i. base' \<le> i \<and> i < n \<longrightarrow> btree_compare bt key (K i) < 0)))"
proof (induction limit arbitrary: st base cmp rip rule: less_induct)
  case (less limit)
  let ?f = "\<lambda>i. btree_compare bt key (K i)"
  note M = probe_mono [OF O S, of _ _ key]
  show ?case
  proof (cases "limit = 0")
    case True
    with less.prems show ?thesis
      by (simp add: row_leaf_loop.simps [of codec bt key a st])
  next
    case False
    let ?indx = "base + limit div 2"
    from False less.prems(2) have indx: "?indx < n" by (simp add: less_le_trans [OF _ less.prems(2)] )
    from wt_key_instantiate_ok [OF less.prems(1) indx]
    obtain st1 where E: "wt_key_instantiate codec st (a, ?indx) = (None, st1)"
      and I: "wt_item st1 a (rows st1 (a, ?indx)) = Some (K ?indx)"
      and P1: "page_keys codec st1 a n K" by blast
    note step = row_leaf_loop_step [OF False E I, of bt key cmp rip]
    consider (eq) "?f ?indx = 0" | (lt) "?f ?indx < 0" | (gt) "0 < ?f ?indx"
      by linarith
    then show ?thesis
    proof cases
      case eq
      with step P1 indx show ?thesis by auto
    next
      case lt
      have hi: "\<forall>i. base + limit div 2 \<le> i \<and> i < n \<longrightarrow> ?f i < 0"
      proof (intro allI impI)
        fix i assume i: "base + limit div 2 \<le> i \<and> i < n"
        show "?f i < 0"
        proof (cases "i = ?indx")
          case True with lt show ?thesis by simp
        next
          case False
          with i lt M [of ?indx i] show ?thesis by simp
        qed
      qed
      have d: "limit div 2 < limit" using False by simp
      have b: "base + limit div 2 \<le> n" using indx by simp
      have "?f ?indx \<noteq> 0" using lt by simp
      then have nz: "limit div 2 = 0 \<longrightarrow> ?f ?indx \<noteq> 0" by blast
      have "row_leaf_loop codec bt key a st base limit cmp rip =
              row_leaf_loop codec bt key a st1 base (limit div 2) (?f ?indx) (Some ?indx)"
        unfolding step using lt by simp
      with less.IH [OF d P1 b less.prems(3) hi nz, of "Some ?indx"]
      show ?thesis by simp
    next
      case gt
      have lo: "\<forall>i<base + limit div 2 + 1. 0 < ?f i"
      proof (intro allI impI)
        fix i assume i: "i < base + limit div 2 + 1"
        show "0 < ?f i"
        proof (cases "i = ?indx")
          case True with gt show ?thesis by simp
        next
          case False
          with i have "i < ?indx" by simp
          with gt indx M [of i ?indx] show ?thesis by fastforce
        qed
      qed
      have eq: "base + limit div 2 + 1 + (limit - 1) div 2 = base + limit"
        using False by presburger
      have hi: "\<forall>i. base + limit div 2 + 1 + (limit - 1) div 2 \<le> i \<and> i < n \<longrightarrow> ?f i < 0"
        unfolding eq using less.prems(4) .
      have d: "(limit - 1) div 2 < limit" using False by simp
      have b: "base + limit div 2 + 1 + (limit - 1) div 2 \<le> n"
        unfolding eq using less.prems(2) .
      have "?f ?indx \<noteq> 0" using gt by simp
      then have nz: "(limit - 1) div 2 = 0 \<longrightarrow> ?f ?indx \<noteq> 0" by blast
      have "row_leaf_loop codec bt key a st base limit cmp rip =
              row_leaf_loop codec bt key a st1 (base + limit div 2 + 1) ((limit - 1) div 2)
                (?f ?indx) (Some ?indx)"
        unfolding step using gt by simp
      with less.IH [OF d P1 b lo hi nz, of "Some ?indx"]
      show ?thesis by simp
    qed
  qed
qed

lemma linear_search_match:
  "m \<le> i \<Longrightarrow> i < n \<Longrightarrow> cmp key (K i) = 0 \<Longrightarrow> (\<forall>j. m \<le> j \<and> j < i \<longrightarrow> 0 < cmp key (K j)) \<Longrightarrow>
     linear_search cmp key (map K [m..<n]) m = Match i"
proof (induction "i - m" arbitrary: m)
  case 0
  then have "m = i" by simp
  with 0 show ?case by (simp add: upt_conv_Cons)
next
  case (Suc d)
  then have m: "m < i" "m < n" "0 < cmp key (K m)" by auto
  from Suc.hyps(1) [of "Suc m"] Suc.hyps(2) Suc.prems m
  have "linear_search cmp key (map K [Suc m..<n]) (Suc m) = Match i" by simp
  with m show ?case by (simp add: upt_conv_Cons)
qed

lemma linear_search_miss:
  "m \<le> b \<Longrightarrow> b \<le> n \<Longrightarrow> (\<forall>j. m \<le> j \<and> j < b \<longrightarrow> 0 < cmp key (K j)) \<Longrightarrow>
   (\<forall>j. b \<le> j \<and> j < n \<longrightarrow> cmp key (K j) < 0) \<Longrightarrow>
     linear_search cmp key (map K [m..<n]) m = Miss b"
proof (induction "b - m" arbitrary: m)
  case 0
  then have mb: "m = b" by simp
  show ?case
  proof (cases "b < n")
    case True
    with 0 have "cmp key (K b) < 0" by simp
    with True mb show ?thesis by (simp add: upt_conv_Cons)
  next
    case False
    with 0 mb show ?thesis by simp
  qed
next
  case (Suc d)
  then have m: "m < b" "m < n" "0 < cmp key (K m)" by auto
  from Suc.hyps(1) [of "Suc m"] Suc.hyps(2) Suc.prems m
  have "linear_search cmp key (map K [Suc m..<n]) (Suc m) = Miss b" by simp
  with m show ?case by (simp add: upt_conv_Cons)
qed

lemma row_leaf_loop_correct:
  assumes O: "comparator_ok (btree_compare bt)" and S: "keys_sorted bt 0 n K"
    and P: "page_keys codec st a n K" and N: "0 < n \<or> cmp0 \<noteq> 0"
  shows "\<exists>base cmp rip st'.
     row_leaf_loop codec bt key a st 0 n cmp0 None = (Inr (base, cmp, rip), st') \<and>
     page_keys codec st' a n K \<and>
     leaf_outcome (base, cmp, rip) =
       Some (linear_search (btree_compare bt) key (map K [0..<n]) 0) \<and>
     (cmp = 0 \<longrightarrow> (\<exists>i<n. rip = Some i \<and> btree_compare bt key (K i) = 0)) \<and>
     (cmp \<noteq> 0 \<longrightarrow> is_base bt key K 0 n base)"
proof -
  let ?f = "\<lambda>i. btree_compare bt key (K i)"
  from N have nz: "n = 0 \<longrightarrow> cmp0 \<noteq> 0" by auto
  from row_leaf_loop_inv [OF O S P, of 0 n key cmp0 None] nz
  obtain base cmp rip st' where
    R: "row_leaf_loop codec bt key a st 0 n cmp0 None = (Inr (base, cmp, rip), st')"
    and P': "page_keys codec st' a n K"
    and C: "(cmp = 0 \<and> (\<exists>i<n. rip = Some i \<and> ?f i = 0)) \<or>
            (cmp \<noteq> 0 \<and> base \<le> n \<and> (\<forall>i<base. 0 < ?f i) \<and>
             (\<forall>i. base \<le> i \<and> i < n \<longrightarrow> ?f i < 0))"
    by auto
  from C show ?thesis
  proof
    assume "cmp = 0 \<and> (\<exists>i<n. rip = Some i \<and> ?f i = 0)"
    then obtain i where i: "cmp = 0" "i < n" "rip = Some i" "?f i = 0" by auto
    have "0 < ?f j" if "j < i" for j
    proof (rule ccontr)
      assume "\<not> 0 < ?f j"
      then have "?f j \<le> 0" by simp
      from probe_mono [OF O S _ that i(2) this] i(4) show False by simp
    qed
    then have "linear_search (btree_compare bt) key (map K [0..<n]) 0 = Match i"
      using linear_search_match [of 0 i n "btree_compare bt" key K] i by simp
    with R P' i show ?thesis by (auto simp: leaf_outcome_def)
  next
    assume A: "cmp \<noteq> 0 \<and> base \<le> n \<and> (\<forall>i<base. 0 < ?f i) \<and>
             (\<forall>i. base \<le> i \<and> i < n \<longrightarrow> ?f i < 0)"
    then have "linear_search (btree_compare bt) key (map K [0..<n]) 0 = Miss base"
      using linear_search_miss [of 0 base n "btree_compare bt" key K] by simp
    moreover from A have "is_base bt key K 0 n base"
      by (auto simp: is_base_def intro: less_imp_le)
    ultimately show ?thesis using R P' A by (auto simp: leaf_outcome_def)
  qed
qed

text \<open>The search for \<open>e\<close> on the leaf \<open>b, d, f, h\<close>: a miss with \<open>base = 2\<close>.\<close>

lemma row_leaf_loop_correct_example:
  "fst (row_leaf_loop ex_codec ex_bt [101] 2 ex_st 0 4 0 None) = Inr (2, 1, Some 1) \<and>
   linear_search (btree_compare ex_bt) [101] (map ex_leaf2_keys [0..<4]) 0 = Miss 2 \<and>
   is_base ex_bt [101] ex_leaf2_keys 0 4 2"
proof -
  let ?L = "row_leaf_loop ex_codec ex_bt [101] 2 ex_st 0 4 0 None"
  have O: "comparator_ok (btree_compare ex_bt)"
    by (simp add: ex_bt_def comparator_ok_lex)
  have four: "i < 4 \<longleftrightarrow> i = 0 \<or> i = 1 \<or> i = 2 \<or> i = 3" for i :: nat
    by auto
  have S: "keys_sorted ex_bt 0 4 ex_leaf2_keys"
    by (auto simp: keys_sorted_def four ex_leaf2_keys_def ex_bt_def)
  have P: "page_keys ex_codec ex_st 2 4 ex_leaf2_keys"
    by (auto simp: page_keys_def four slot_key_def heap_ptr_ok_def wt_item_def
          ex_leaf2_keys_def ex_st_def ex_codec_def)
  have E: "fst ?L = Inr (2, 1, Some 1)"
    by (simp add: ex_defs key_build_defs search_defs)
  from row_leaf_loop_correct [OF O S P, of 0 "[101]"]
  obtain base cmp rip st' where
    R: "?L = (Inr (base, cmp, rip), st')"
    and lo: "leaf_outcome (base, cmp, rip) =
       Some (linear_search (btree_compare ex_bt) [101] (map ex_leaf2_keys [0..<4]) 0)"
    and B: "cmp \<noteq> 0 \<longrightarrow> is_base ex_bt [101] ex_leaf2_keys 0 4 base"
    by auto
  from R E have "base = 2" "cmp = 1" "rip = Some 1" by simp_all
  with lo B E show ?thesis by (simp add: leaf_outcome_def)
qed

text \<open>
  C1 fails on a leaf page without slots: the loop of lines 133-152 is not entered, \<open>cmp\<close>
  still has the value 0 of line 39 (or of an exact match on the page above), and the
  search takes the branch of an on-disk match with \<open>rip\<close> NULL, where the linear scan
  reports a miss with \<open>base = 0\<close>. So it is for the search of an empty tree.
  (For a page with a slot, and whenever \<open>cmp\<close> is not 0 on entry,
  \<open>row_leaf_loop_correct\<close> above is the claim.)
\<close>

theorem leaf_search_empty_page:
  "row_leaf_loop ex_codec ex_empty_bt [101] 1 (clear_return_values ex_st) 0 0 0 None =
     (Inr (0, 0, None), clear_return_values ex_st) \<and>
   leaf_outcome (0, 0, None) = None \<and>
   linear_search (btree_compare ex_empty_bt) [101] (map ex_root_keys [0..<0]) 0 = Miss 0 \<and>
   wt_row_search ex_codec ex_pin ex_empty_bt ex_st [101] False =
     (Some Undefined_Behaviour, clear_return_values ex_st)"
  by (simp add: leaf_outcome_def ex_empty_bt_def search_defs)

subsection \<open>The binary search of an internal page\<close>

lemma row_int_loop_step:
  assumes "limit \<noteq> 0"
    and "wt_key_instantiate codec st (a, base + limit div 2) = (None, st1)"
    and "wt_item st1 a (rows st1 (a, base + limit div 2)) = Some item"
    and "base + limit div 2 \<noteq> 0"
  shows "row_int_loop codec bt key a st base limit cmp rref probes =
     (if btree_compare bt key item = 0
      then (Inr (base, 0, Some (base + limit div 2), probes @ [base + limit div 2]), st1)
      else if btree_compare bt key item < 0
      then row_int_loop codec bt key a st1 base (limit div 2) (btree_compare bt key item)
             (Some (base + limit div 2)) (probes @ [base + limit div 2])
      else row_int_loop codec bt key a st1 (base + limit div 2 + 1) ((limit - 1) div 2)
             (btree_compare bt key item) (Some (base + limit div 2))
             (probes @ [base + limit div 2]))"
  using assms by (simp add: row_int_loop.simps [of codec bt key a st] Let_def)

lemma row_int_loop_step0:
  assumes "limit \<noteq> 0"
    and "wt_key_instantiate codec st (a, base + limit div 2) = (None, st1)"
    and "base + limit div 2 = 0"
  shows "row_int_loop codec bt key a st base limit cmp rref probes =
     row_int_loop codec bt key a st1 1 ((limit - 1) div 2) cmp (Some 0) probes"
  using assms by (simp add: row_int_loop.simps [of codec bt key a st] Let_def)

lemma row_int_loop_inv:
  assumes O: "comparator_ok (btree_compare bt)" and S: "keys_sorted bt 1 n K"
  shows "page_keys codec st a n K \<Longrightarrow> base + limit \<le> n \<Longrightarrow>
     (\<forall>i. 1 \<le> i \<and> i < base \<longrightarrow> 0 < btree_compare bt key (K i)) \<Longrightarrow>
     (\<forall>i. base + limit \<le> i \<and> i < n \<longrightarrow> btree_compare bt key (K i) < 0) \<Longrightarrow>
     (base = 0 \<longrightarrow> 0 < limit) \<Longrightarrow>
     (limit = 0 \<longrightarrow> cmp \<noteq> 0 \<or> rref = Some (base - 1)) \<Longrightarrow>
     0 \<notin> set probes \<Longrightarrow>
     \<exists>base' cmp' rref' probes' st' r.
        row_int_loop codec bt key a st base limit cmp rref probes =
          (Inr (base', cmp', rref', probes'), st') \<and>
        page_keys codec st' a n K \<and> 0 \<notin> set probes' \<and>
        descent_ref base' cmp' rref' = Some r \<and> r < n \<and>
        (\<forall>i. 1 \<le> i \<and> i \<le> r \<longrightarrow> 0 \<le> btree_compare bt key (K i)) \<and>
        (\<forall>i. r < i \<and> i < n \<longrightarrow> btree_compare bt key (K i) < 0)"
proof (induction limit arbitrary: st base cmp rref probes rule: less_induct)
  case (less limit)
  let ?f = "\<lambda>i. btree_compare bt key (K i)"
  note M = probe_mono [OF O S, of _ _ key]
  show ?case
  proof (cases "limit = 0")
    case True
    with less.prems(5) have b: "1 \<le> base" by simp
    with True less.prems(6) have "descent_ref base cmp rref = Some (base - 1)"
      by (auto simp: descent_ref_def)
    moreover have "\<forall>i. 1 \<le> i \<and> i \<le> base - 1 \<longrightarrow> 0 \<le> ?f i"
      using less.prems(3) b by (auto intro!: less_imp_le)
    moreover have "\<forall>i. base - 1 < i \<and> i < n \<longrightarrow> ?f i < 0"
      using less.prems(4) True b by auto
    moreover have "base - 1 < n" using less.prems(2) b by simp
    ultimately show ?thesis
      using True less.prems(1,7) by (simp add: row_int_loop.simps [of codec bt key a st])
  next
    case False
    let ?indx = "base + limit div 2"
    from False less.prems(2) have indx: "?indx < n"
      by (simp add: less_le_trans [OF _ less.prems(2)])
    from wt_key_instantiate_ok [OF less.prems(1) indx]
    obtain st1 where E: "wt_key_instantiate codec st (a, ?indx) = (None, st1)"
      and I: "wt_item st1 a (rows st1 (a, ?indx)) = Some (K ?indx)"
      and P1: "page_keys codec st1 a n K" by blast
    have eq: "base + limit div 2 + 1 + (limit - 1) div 2 = base + limit"
      using False by presburger
    show ?thesis
    proof (cases "?indx = 0")
      case True
      then have b0: "base = 0" and l1: "limit = 1" using False by auto
      have d: "(limit - 1) div 2 < limit" using False by simp
      have "row_int_loop codec bt key a st base limit cmp rref probes =
              row_int_loop codec bt key a st1 1 ((limit - 1) div 2) cmp (Some 0) probes"
        by (rule row_int_loop_step0 [OF False E True])
      moreover have hi: "\<forall>i. 1 + (limit - 1) div 2 \<le> i \<and> i < n \<longrightarrow> ?f i < 0"
        using less.prems(4) b0 l1 by simp
      moreover have b: "1 + (limit - 1) div 2 \<le> n" using less.prems(2) b0 l1 by simp
      moreover have lo: "\<forall>i. 1 \<le> i \<and> i < 1 \<longrightarrow> 0 < ?f i" by simp
      moreover have z0: "(1::nat) = 0 \<longrightarrow> 0 < (limit - 1) div 2" by simp
      moreover have z: "(limit - 1) div 2 = 0 \<longrightarrow> cmp \<noteq> 0 \<or> Some 0 = Some ((1::nat) - 1)"
        by simp
      ultimately show ?thesis
        using less.IH [OF d P1 b lo hi z0 z less.prems(7)] by simp
    next
      case nz: False
      note step = row_int_loop_step [OF False E I nz, of bt key cmp rref probes]
      have pr: "0 \<notin> set (probes @ [?indx])" using less.prems(7) nz by simp
      have i1: "1 \<le> ?indx" using nz by linarith
      consider (eq) "?f ?indx = 0" | (lt) "?f ?indx < 0" | (gt) "0 < ?f ?indx"
        by linarith
      then show ?thesis
      proof cases
        case eq
        have a: "\<forall>i. 1 \<le> i \<and> i \<le> ?indx \<longrightarrow> 0 \<le> ?f i"
        proof (intro allI impI)
          fix i assume i: "1 \<le> i \<and> i \<le> ?indx"
          show "0 \<le> ?f i"
          proof (cases "i = ?indx")
            case True with eq show ?thesis by simp
          next
            case False
            with i have "i < ?indx" by simp
            with i eq indx M [of i ?indx] show ?thesis by fastforce
          qed
        qed
        have b: "\<forall>i. ?indx < i \<and> i < n \<longrightarrow> ?f i < 0"
          using M [of ?indx] eq i1 by simp
        have "descent_ref base 0 (Some ?indx) = Some ?indx" by (simp add: descent_ref_def)
        with a b step eq P1 pr indx show ?thesis by auto
      next
        case lt
        have hi: "\<forall>i. base + limit div 2 \<le> i \<and> i < n \<longrightarrow> ?f i < 0"
        proof (intro allI impI)
          fix i assume i: "base + limit div 2 \<le> i \<and> i < n"
          show "?f i < 0"
          proof (cases "i = ?indx")
            case True with lt show ?thesis by simp
          next
            case False
            with i lt i1 M [of ?indx i] show ?thesis by simp
          qed
        qed
        have d: "limit div 2 < limit" using False by simp
        have b: "base + limit div 2 \<le> n" using indx by simp
        have b0: "base = 0 \<longrightarrow> 0 < limit div 2" using nz by auto
        have "?f ?indx \<noteq> 0" using lt by simp
        then have z: "limit div 2 = 0 \<longrightarrow> ?f ?indx \<noteq> 0 \<or> Some ?indx = Some (base - 1)"
          by blast
        have "row_int_loop codec bt key a st base limit cmp rref probes =
                row_int_loop codec bt key a st1 base (limit div 2) (?f ?indx) (Some ?indx)
                  (probes @ [?indx])"
          unfolding step using lt by simp
        with less.IH [OF d P1 b less.prems(3) hi b0 z pr]
        show ?thesis by simp
      next
        case gt
        have lo: "\<forall>i. 1 \<le> i \<and> i < base + limit div 2 + 1 \<longrightarrow> 0 < ?f i"
        proof (intro allI impI)
          fix i assume i: "1 \<le> i \<and> i < base + limit div 2 + 1"
          show "0 < ?f i"
          proof (cases "i = ?indx")
            case True with gt show ?thesis by simp
          next
            case False
            with i have "i < ?indx" by simp
            with i gt indx M [of i ?indx] show ?thesis by fastforce
          qed
        qed
        have hi: "\<forall>i. base + limit div 2 + 1 + (limit - 1) div 2 \<le> i \<and> i < n \<longrightarrow> ?f i < 0"
          unfolding eq using less.prems(4) .
        have d: "(limit - 1) div 2 < limit" using False by simp
        have b: "base + limit div 2 + 1 + (limit - 1) div 2 \<le> n"
          unfolding eq using less.prems(2) .
        have b0: "base + limit div 2 + 1 = 0 \<longrightarrow> 0 < (limit - 1) div 2" by simp
        have "?f ?indx \<noteq> 0" using gt by simp
        then have z: "(limit - 1) div 2 = 0 \<longrightarrow>
            ?f ?indx \<noteq> 0 \<or> Some ?indx = Some (base + limit div 2 + 1 - 1)"
          by blast
        have "row_int_loop codec bt key a st base limit cmp rref probes =
                row_int_loop codec bt key a st1 (base + limit div 2 + 1) ((limit - 1) div 2)
                  (?f ?indx) (Some ?indx) (probes @ [?indx])"
          unfolding step using gt by simp
        with less.IH [OF d P1 b lo hi b0 z pr]
        show ?thesis by simp
      qed
    qed
  qed
qed

text \<open>
  C2. On an internal page whose keys from index 1 on are sorted, the loop of lines 49-84
  never passes index 0 to the comparator (\<open>probes\<close>), and the reference used for the
  descent is \<open>r = base - 1\<close>, where \<open>base = Suc r\<close> is the smallest index from 1 on
  whose key is greater than the key searched (the array length when there is none), also
  when the key is equal to a key of the page; for a key smaller than every key from
  index 1 on, \<open>r = 0\<close>. The descent goes on with the child at \<open>r\<close>.
\<close>

theorem internal_page_descent:
  assumes O: "comparator_ok (btree_compare bt)"
    and S: "keys_sorted bt 1 (Suc (length cs)) K"
    and P: "page_keys codec st a (Suc (length cs)) K"
  shows "\<exists>base cmp1 rref probes st1 r.
     row_int_loop codec bt key a st 0 (Suc (length cs)) cmp None [] =
       (Inr (base, cmp1, rref, probes), st1) \<and>
     0 \<notin> set probes \<and>
     descent_ref base cmp1 rref = Some r \<and>
     is_base bt key K 1 (Suc (length cs)) (Suc r) \<and>
     ((\<forall>i. 1 \<le> i \<and> i \<le> length cs \<longrightarrow> btree_compare bt key (K i) < 0) \<longrightarrow> r = 0) \<and>
     descend codec pin_err bt key cmp st (Row_Int a c cs) =
       (case wt_page_in pin_err st1 (paddr ((c # cs) ! r)) of
          (Some e, st2) \<Rightarrow> (Inl (e, Row_Int a c cs), st2)
        | (None, st2) \<Rightarrow>
            descend codec pin_err bt key cmp1
              (if a \<noteq> paddr (root_page bt) then wt_hazard_clear st2 a else st2)
              ((c # cs) ! r))"
proof -
  let ?n = "Suc (length cs)"
  let ?f = "\<lambda>i. btree_compare bt key (K i)"
  have "\<exists>base' cmp' rref' probes' st' r.
        row_int_loop codec bt key a st 0 ?n cmp None [] =
          (Inr (base', cmp', rref', probes'), st') \<and>
        page_keys codec st' a ?n K \<and> 0 \<notin> set probes' \<and>
        descent_ref base' cmp' rref' = Some r \<and> r < ?n \<and>
        (\<forall>i. 1 \<le> i \<and> i \<le> r \<longrightarrow> 0 \<le> ?f i) \<and>
        (\<forall>i. r < i \<and> i < ?n \<longrightarrow> ?f i < 0)"
    by (rule row_int_loop_inv [OF O S P]) simp_all
  then obtain base cmp1 rref probes st1 r where
    R: "row_int_loop codec bt key a st 0 ?n cmp None [] = (Inr (base, cmp1, rref, probes), st1)"
    and pr: "0 \<notin> set probes"
    and dr: "descent_ref base cmp1 rref = Some r" and r: "r < ?n"
    and lo: "\<forall>i. 1 \<le> i \<and> i \<le> r \<longrightarrow> 0 \<le> ?f i"
    and hi: "\<forall>i. r < i \<and> i < ?n \<longrightarrow> ?f i < 0"
    by blast
  have B: "is_base bt key K 1 ?n (Suc r)"
    using r lo hi by (auto simp: is_base_def)
  have Z: "r = 0" if A: "\<forall>i. 1 \<le> i \<and> i \<le> length cs \<longrightarrow> ?f i < 0"
  proof (rule ccontr)
    assume "r \<noteq> 0"
    with r have "1 \<le> r \<and> r \<le> length cs" by simp
    with A lo show False by fastforce
  qed
  have D: "descend codec pin_err bt key cmp st (Row_Int a c cs) =
       (case wt_page_in pin_err st1 (paddr ((c # cs) ! r)) of
          (Some e, st2) \<Rightarrow> (Inl (e, Row_Int a c cs), st2)
        | (None, st2) \<Rightarrow>
            descend codec pin_err bt key cmp1
              (if a \<noteq> paddr (root_page bt) then wt_hazard_clear st2 a else st2)
              ((c # cs) ! r))"
    using R dr r by simp
  from R pr dr B Z D show ?thesis by blast
qed

theorem internal_page_descent_witness:
  "fst (row_int_loop ex_codec ex_bt [99] 1 (clear_return_values ex_st) 0 (Suc (length [ex_leaf3]))
          0 None []) = Inr (1, - 1, Some 0, [1]) \<and>
   descent_ref 1 (- 1) (Some 0) = Some 0 \<and>
   is_base ex_bt [99] ex_root_keys 1 (Suc (length [ex_leaf3])) (Suc 0)"
proof -
  let ?L = "row_int_loop ex_codec ex_bt [99] 1 (clear_return_values ex_st) 0
              (Suc (length [ex_leaf3])) 0 None []"
  have O: "comparator_ok (btree_compare ex_bt)"
    by (simp add: ex_bt_def comparator_ok_lex)
  have S: "keys_sorted ex_bt 1 (Suc (length [ex_leaf3])) ex_root_keys"
    by (auto simp: keys_sorted_def)
  have P: "page_keys ex_codec (clear_return_values ex_st) 1 (Suc (length [ex_leaf3])) ex_root_keys"
    by (auto simp: page_keys_def less_Suc_eq slot_key_def heap_ptr_ok_def wt_item_def
          ex_root_keys_def ex_st_def clear_return_values_def)
  have E: "fst ?L = Inr (1, - 1, Some 0, [1])"
    by (simp add: ex_defs key_build_defs search_defs)
  from internal_page_descent [OF O S P, of "[99]" 0 ex_pin ex_leaf2]
  obtain base cmp1 rref probes st1 r where
    R: "?L = (Inr (base, cmp1, rref, probes), st1)"
    and dr: "descent_ref base cmp1 rref = Some r"
    and B: "is_base ex_bt [99] ex_root_keys 1 (Suc (length [ex_leaf3])) (Suc r)"
    by blast
  from R E have "base = 1" "cmp1 = - 1" "rref = Some 0" by simp_all
  with dr have "descent_ref 1 (- 1) (Some 0) = Some r" by simp
  moreover from this have "r = 0" by (simp add: descent_ref_def)
  ultimately show ?thesis using E B by simp
qed

subsection \<open>Publishing a key\<close>

text \<open>
  C7. Every state the memory goes through during \<open>__wt_key_build_serial_func\<close> (before
  the stores, between them, after them) has the key either pending (size 0) or resident
  with a valid pointer, and a key that is resident is the old pair or the new pointer
  with the new size, never a mix; no other slot and nothing of the heap changes. For a
  pending key the pointer is stored first, then the size. (The stores are taken in
  program order, which is what \<open>WT_MEMORY_FLUSH\<close> between them is there for.)
\<close>

theorem key_publish_order:
  assumes I: "key_state_ok st k"
    and B: "heap st (buf_mem tmp) = Some b" and N: "buf_size tmp = length b"
  shows "(\<forall>s \<in> set (serial_stores st k tmp).
            key_state_ok s k \<and>
            (row_size (rows s k) = 0 \<or> rows s k = rows st k \<or>
             rows s k = (rows st k)\<lparr>row_key := Heap (buf_mem tmp), row_size := buf_size tmp\<rparr> \<and>
             wt_item s (fst k) (rows s k) = Some b) \<and>
            (\<forall>k'. k' \<noteq> k \<longrightarrow> rows s k' = rows st k') \<and> heap s = heap st) \<and>
         (wt_key_process (rows st k) \<longrightarrow>
            serial_stores st k tmp =
              [st, store_key st k (Heap (buf_mem tmp)),
               store_size (store_key st k (Heap (buf_mem tmp))) k (buf_size tmp)] \<and>
            snd (wt_key_build_serial_func st k tmp) =
              st\<lparr>rows := (rows st)(k := (rows st k)\<lparr>row_key := Heap (buf_mem tmp),
                                                    row_size := buf_size tmp\<rparr>)\<rparr>) \<and>
         (\<not> wt_key_process (rows st k) \<longrightarrow> snd (wt_key_build_serial_func st k tmp) = st)"
  using assms
  by (auto simp: serial_stores_def wt_key_build_serial_func_def store_key_def store_size_def
        key_state_ok_def wt_key_process_def wt_item_def)

theorem key_publish_order_witness:
  "list_all (\<lambda>s. key_state_ok s (2, 2))
     (serial_stores (snd (wt_cell_process ex_codec ex_st 2 (Disk 9))) (2, 2)
        \<lparr>buf_mem = 0, buf_size = 1\<rparr>) \<and>
   map (\<lambda>s. rows s (2, 2))
     (serial_stores (snd (wt_cell_process ex_codec ex_st 2 (Disk 9))) (2, 2)
        \<lparr>buf_mem = 0, buf_size = 1\<rparr>) =
     [\<lparr>row_key = Disk 9, row_size = 0\<rparr>, \<lparr>row_key = Heap 0, row_size = 0\<rparr>,
      \<lparr>row_key = Heap 0, row_size = 1\<rparr>]"
proof -
  let ?st = "snd (wt_cell_process ex_codec ex_st 2 (Disk 9))"
  let ?tmp = "\<lparr>buf_mem = 0, buf_size = 1\<rparr>"
  have I: "key_state_ok ?st (2, 2)"
    by (simp add: key_state_ok_def wt_cell_process_def ex_codec_def ex_st_def)
  have B: "heap ?st (buf_mem ?tmp) = Some [102]"
    by (simp add: wt_cell_process_def ex_codec_def ex_st_def)
  have N: "buf_size ?tmp = length [102 :: 8 word]" by simp
  from key_publish_order [OF I B N]
  have "\<forall>s \<in> set (serial_stores ?st (2, 2) ?tmp). key_state_ok s (2, 2)"
    by blast
  then have "list_all (\<lambda>s. key_state_ok s (2, 2)) (serial_stores ?st (2, 2) ?tmp)"
    by (simp add: list_all_iff)
  moreover have "map (\<lambda>s. rows s (2, 2)) (serial_stores ?st (2, 2) ?tmp) =
     [\<lparr>row_key = Disk 9, row_size = 0\<rparr>, \<lparr>row_key = Heap 0, row_size = 0\<rparr>,
      \<lparr>row_key = Heap 0, row_size = 1\<rparr>]"
    by (simp add: serial_stores_def store_key_def store_size_def wt_key_process_def
          wt_cell_process_def ex_codec_def ex_st_def)
  ultimately show ?thesis by blast
qed

subsection \<open>Building a key more than once\<close>

lemma wt_key_instantiate_idem:
  "wt_key_instantiate codec (snd (wt_key_instantiate codec st k)) k =
     wt_key_instantiate codec st k"
  by (auto simp: wt_key_instantiate_def wt_key_process_def wt_key_build_def wt_cell_process_def
        wt_key_build_swap_def wt_key_build_serial_func_def serial_stores_def store_key_def
        store_size_def Let_def
      split: ptr.splits sum.splits)

lemma wt_key_instantiate_funpow:
  "((\<lambda>s. snd (wt_key_instantiate codec s k)) ^^ Suc m) st = snd (wt_key_instantiate codec st k)"
  by (induction m) (simp_all add: wt_key_instantiate_idem)

text \<open>
  C8. A key that is resident is left alone: the search does not call \<open>__wt_key_build\<close>
  for it, and \<open>__wt_key_build\<close> returns at once, the state unchanged, for a key whose
  pointer is off the page. Building a key any number of times gives the state that
  building it once gives. After the swap, a buffer that is not the one the key points
  to has been freed; and when two threads race to build a pending key, the key ends up
  as after a single build, with the same bytes, the first buffer in place and the second
  freed.
\<close>

theorem key_build_idempotent:
  "(row_size (rows st k) \<noteq> 0 \<longrightarrow> wt_key_instantiate codec st k = (None, st)) \<and>
   (wt_ref_off_page (row_key (rows st k)) \<longrightarrow> wt_key_build codec st k = (None, st)) \<and>
   ((\<lambda>s. snd (wt_key_instantiate codec s k)) ^^ Suc m) st = snd (wt_key_instantiate codec st k) \<and>
   (row_key (rows (snd (wt_key_build_swap st k tmp)) k) \<noteq> Heap (buf_mem tmp) \<longrightarrow>
      heap (snd (wt_key_build_swap st k tmp)) (buf_mem tmp) = None) \<and>
   (rows st k = \<lparr>row_key = Disk off, row_size = 0\<rparr> \<and> codec (fst k) off = Inr b \<and> b \<noteq> [] \<longrightarrow>
      (\<exists>tmp1 tmp2 s. key_build_race codec st k = Some (tmp1, tmp2, s) \<and>
         rows s k = rows (snd (wt_key_build codec st k)) k \<and>
         wt_item s (fst k) (rows s k) = Some b \<and>
         wt_item (snd (wt_key_build codec st k)) (fst k)
           (rows (snd (wt_key_build codec st k)) k) = Some b \<and>
         heap s (buf_mem tmp1) = Some b \<and> heap s (buf_mem tmp2) = None))"
proof -
  have 1: "wt_key_instantiate codec st k = (None, st)" if "row_size (rows st k) \<noteq> 0"
    using that by (simp add: wt_key_instantiate_def wt_key_process_def)
  have 2: "wt_key_build codec st k = (None, st)" if "wt_ref_off_page (row_key (rows st k))"
    using that by (simp add: wt_key_build_def)
  have 4: "heap (snd (wt_key_build_swap st k tmp)) (buf_mem tmp) = None"
    if "row_key (rows (snd (wt_key_build_swap st k tmp)) k) \<noteq> Heap (buf_mem tmp)"
    using that by (auto simp: wt_key_build_swap_def wt_free_def split: prod.splits if_splits)
  have 5: "\<exists>tmp1 tmp2 s. key_build_race codec st k = Some (tmp1, tmp2, s) \<and>
         rows s k = rows (snd (wt_key_build codec st k)) k \<and>
         wt_item s (fst k) (rows s k) = Some b \<and>
         wt_item (snd (wt_key_build codec st k)) (fst k)
           (rows (snd (wt_key_build codec st k)) k) = Some b \<and>
         heap s (buf_mem tmp1) = Some b \<and> heap s (buf_mem tmp2) = None"
    if "rows st k = \<lparr>row_key = Disk off, row_size = 0\<rparr>" "codec (fst k) off = Inr b" "b \<noteq> []"
    using that
    by (simp add: key_build_race_def wt_key_build_def wt_cell_process_def wt_key_build_swap_def
          wt_key_build_serial_func_def serial_stores_def store_key_def store_size_def
          wt_key_process_def wt_free_def wt_item_def)
  from 1 2 4 5 wt_key_instantiate_funpow show ?thesis by blast
qed

theorem key_build_idempotent_witness:
  "wt_key_instantiate ex_codec ex_st (2, 0) = (None, ex_st) \<and>
   ((\<lambda>s. snd (wt_key_instantiate ex_codec s (2, 2))) ^^ Suc 2) ex_st =
     snd (wt_key_instantiate ex_codec ex_st (2, 2)) \<and>
   (\<exists>tmp1 tmp2 s. key_build_race ex_codec ex_st (2, 2) = Some (tmp1, tmp2, s) \<and>
      wt_item s 2 (rows s (2, 2)) = Some [102] \<and>
      heap s (buf_mem tmp1) = Some [102] \<and> heap s (buf_mem tmp2) = None)"
proof -
  have R: "row_size (rows ex_st (2, 0)) \<noteq> 0" by (simp add: ex_st_def)
  have P: "rows ex_st (2, 2) = \<lparr>row_key = Disk 9, row_size = 0\<rparr> \<and>
           ex_codec (fst (2 :: nat, 2 :: nat)) 9 = Inr [102] \<and> [102 :: 8 word] \<noteq> []"
    by (simp add: ex_st_def ex_codec_def)
  from key_build_idempotent [of ex_st "(2, 0)" ex_codec] R
  have A: "wt_key_instantiate ex_codec ex_st (2, 0) = (None, ex_st)" by blast
  from key_build_idempotent [of ex_st "(2, 2)" ex_codec 2]
  have B: "((\<lambda>s. snd (wt_key_instantiate ex_codec s (2, 2))) ^^ Suc 2) ex_st =
     snd (wt_key_instantiate ex_codec ex_st (2, 2))" by blast
  from key_build_idempotent [of ex_st "(2, 2)" ex_codec _ _ 9 "[102]"] P
  have C: "\<exists>tmp1 tmp2 s. key_build_race ex_codec ex_st (2, 2) = Some (tmp1, tmp2, s) \<and>
      wt_item s 2 (rows s (2, 2)) = Some [102] \<and>
      heap s (buf_mem tmp1) = Some [102] \<and> heap s (buf_mem tmp2) = None"
    by fastforce
  from A B C show ?thesis by blast
qed

end
